theory Spec2Isabelle
  imports Complex_Main "HOL-Library.Sublist" "HOL-Library.Signed_Division"
begin

section \<open>Pulse: relay session pairing and the transfer protocol engine\<close>

text \<open>
  A shallow embedding of the Go sources \<^verbatim>\<open>internal/transfer\<close> (sender and receiver) and of the
  relay in \<^verbatim>\<open>cmd/pulse\<close>. Calls that leave the program (the network, the file system, the clock,
  the cipher) are modelled by their outcome, which the environment chooses: every \<^verbatim>\<open>err != nil\<close>
  branch of the source is a branch of the model. Debug logging and the progress callbacks, which
  receive values and return nothing, are left out. Lengths and counters are unbounded integers
  where the source cannot overflow (the received bytes are held in memory); where it can, the
  wrap-around is written out.
\<close>

text \<open>
  A Go \<^verbatim>\<open>string\<close> is a sequence of bytes, and so is a HOL \<open>string\<close>: a byte is a \<open>char\<close>, and the
  conversions \<^verbatim>\<open>string(b)\<close> and \<^verbatim>\<open>[]byte(s)\<close> are the identity.
\<close>

type_synonym byte = char

subsection \<open>Durations\<close>

text \<open>\<^verbatim>\<open>time.Duration\<close> counts nanoseconds.\<close>

definition Second :: int where
  "Second = 1000000000"

definition Minute :: int where
  "Minute = 60 * Second"

subsection \<open>Sender: Config, NewSender, Connect\<close>

record Config =
  ChunkSize :: int
  Timeout :: int
  Retries :: int
  Debug :: bool

definition DefaultChunkSize :: int where
  "DefaultChunkSize = 64 * 1024"

record Sender =
  relayURL :: string
  token :: string
  key :: "byte list"
  config :: Config

definition NewSender :: "string \<Rightarrow> string \<Rightarrow> byte list \<Rightarrow> Config \<Rightarrow> Sender" where
  "NewSender url tok k cfg =
     (let cfg1 = (if ChunkSize cfg = 0 then cfg\<lparr>ChunkSize := DefaultChunkSize\<rparr> else cfg);
          cfg2 = (if Timeout cfg1 = 0 then cfg1\<lparr>Timeout := 5 * Minute\<rparr> else cfg1);
          cfg3 = (if Retries cfg2 = 0 then cfg2\<lparr>Retries := 3\<rparr> else cfg2)
      in \<lparr>relayURL = url, token = tok, key = k, config = cfg3\<rparr>)"

text \<open>
  What \<^verbatim>\<open>Connect\<close> does to the outside world: it dials, and it sleeps. The outcome of the
  dial of attempt \<open>i\<close> is given by the environment as \<open>dial i\<close>: \<open>Inl e\<close> is the error
  \<open>e\<close> of \<^verbatim>\<open>websocket.DefaultDialer.Dial\<close>, \<open>Inr c\<close> the connection.
\<close>

datatype connect_effect = Dial string | Sleep int

datatype 'e connect_error = ConnectFailed int "'e option"

text \<open>
  The loop \<^verbatim>\<open>for attempt := 0; attempt < s.config.Retries; attempt++\<close>. \<open>lastErr\<close> is
  \<open>None\<close> for Go's nil error. The result is what \<^verbatim>\<open>Connect\<close> returns together with the
  effects in the order they happened.
\<close>

function connect_loop ::
  "Sender \<Rightarrow> (nat \<Rightarrow> 'e + 'c) \<Rightarrow> int \<Rightarrow> 'e option \<Rightarrow> connect_effect list
     \<Rightarrow> ('e connect_error + 'c) \<times> connect_effect list" where
  "connect_loop s dial attempt lastErr tr =
     (if attempt < Retries (config s) then
        (let url = relayURL s @ ''/ws/'' @ token s;
             tr1 = tr @ [Dial url]
         in case dial (nat attempt) of
              Inr conn \<Rightarrow> (Inr conn, tr1)
            | Inl err \<Rightarrow>
                if attempt < Retries (config s) - 1
                then connect_loop s dial (attempt + 1) (Some err)
                       (tr1 @ [Sleep ((attempt + 1) * 2 * Second)])
                else connect_loop s dial (attempt + 1) (Some err) tr1)
      else (Inl (ConnectFailed (Retries (config s)) lastErr), tr))"
  by pat_completeness auto
termination
  by (relation "measure (\<lambda>(s, dial, attempt, lastErr, tr). nat (Retries (config s) - attempt))") auto

definition Connect ::
  "Sender \<Rightarrow> (nat \<Rightarrow> 'e + 'c) \<Rightarrow> ('e connect_error + 'c) \<times> connect_effect list" where
  "Connect s dial = connect_loop s dial 0 None []"

fun sleeps :: "connect_effect list \<Rightarrow> int list" where
  "sleeps [] = []"
| "sleeps (Sleep d # tr) = d # sleeps tr"
| "sleeps (Dial u # tr) = sleeps tr"

fun dials :: "connect_effect list \<Rightarrow> nat" where
  "dials [] = 0"
| "dials (Dial u # tr) = Suc (dials tr)"
| "dials (Sleep d # tr) = dials tr"


subsection \<open>Wire messages, metadata, statistics\<close>

text \<open>
  Modelled from the spec: the codec (\<^verbatim>\<open>Message\<close>, the \<^verbatim>\<open>MsgType\<close> constants, \<^verbatim>\<open>DecodeMessage\<close>,
  \<^verbatim>\<open>ParseMetadata\<close> and the message constructors) is not among the sources. A protocol message is a
  tagged union with the variants Ready, Metadata, Chunk, Complete, Cancel and Error, carried as
  a type tag and a payload; decoding fails on any other tag. The fields of \<^verbatim>\<open>Metadata\<close> are those
  of the struct literal in \<^verbatim>\<open>SendFile\<close>.
\<close>

datatype MsgType =
    MsgTypeReady
  | MsgTypeMetadata
  | MsgTypeChunk
  | MsgTypeComplete
  | MsgTypeCancel
  | MsgTypeError

record Message =
  Type :: MsgType
  Payload :: "byte list"

record Metadata =
  Filename :: string
  Size :: int
  Chunks :: int
  Checksum :: string
  MimeType :: string
  BatchIndex :: int
  BatchTotal :: int

definition zero_Metadata :: Metadata where
  "zero_Metadata =
     \<lparr>Filename = [], Size = 0, Chunks = 0, Checksum = [], MimeType = [],
      BatchIndex = 0, BatchTotal = 0\<rparr>"

text \<open>
  Modelled from the spec: the constructors of the messages without structure. A chunk carries
  the slice, a cancellation its reason (the receiver reads it back with
  \<^verbatim>\<open>string(msg.Payload)\<close>), a completion nothing.
\<close>

definition NewChunkMessage :: "byte list \<Rightarrow> Message" where
  "NewChunkMessage data = \<lparr>Type = MsgTypeChunk, Payload = data\<rparr>"

definition NewCompleteMessage :: Message where
  "NewCompleteMessage = \<lparr>Type = MsgTypeComplete, Payload = []\<rparr>"

definition NewCancelMessage :: "string \<Rightarrow> Message" where
  "NewCancelMessage reason = \<lparr>Type = MsgTypeCancel, Payload = reason\<rparr>"

text \<open>
  A \<^verbatim>\<open>float64\<close> is written as the expression that computes it: the conversion of an integer,
  the reading \<^verbatim>\<open>d.Seconds()\<close> of a duration, the quotient of two values. These stand for the
  operations of IEEE 754 arithmetic; they are not evaluated, and nothing is said about the
  number a quotient is rounded to, nor about a division by zero.
\<close>

datatype float64 =
    float64_of_int int
  | Duration_Seconds int
  | float64_div float64 float64

record Stats =
  Duration :: int
  BytesSent :: int
  Speed :: float64

definition zero_Stats :: Stats where
  "zero_Stats = \<lparr>Duration = 0, BytesSent = 0, Speed = float64_of_int 0\<rparr>"

definition final_Stats :: "int \<Rightarrow> int \<Rightarrow> Stats" where
  "final_Stats duration bytes =
     \<lparr>Duration = duration, BytesSent = bytes,
      Speed = float64_div (float64_of_int bytes) (Duration_Seconds duration)\<rparr>"

text \<open>
  The parts of the program that the transfer engine calls and that are not among the sources:
  \<^verbatim>\<open>crypto.ComputeChecksum\<close> (SHA-256 in hexadecimal), the decoder \<^verbatim>\<open>ParseMetadata\<close> and the encoder
  of the metadata payload (\<open>None\<close> is their error), and, from the standard library, the table
  of MIME types by extension. \<open>makeslice_ok n\<close> tells whether the run time can allocate a byte
  slice of capacity \<open>n \<ge> 0\<close> (beyond a bound of the platform, or of the memory left, \<^verbatim>\<open>make\<close>
  does not return). All theorems hold for every choice of them.
\<close>

record deps =
  ComputeChecksum :: "byte list \<Rightarrow> string"
  ParseMetadata :: "byte list \<Rightarrow> Metadata option"
  MarshalMetadata :: "Metadata \<Rightarrow> byte list option"
  mime_TypeByExtension :: "string \<Rightarrow> string"
  makeslice_ok :: "int \<Rightarrow> bool"

text \<open>
  Modelled from the spec: \<^verbatim>\<open>NewMetadataMessage\<close> is not among the sources. It builds the message
  of type Metadata whose payload is the encoded metadata, and fails when the encoding fails.
\<close>

definition NewMetadataMessage :: "deps \<Rightarrow> Metadata \<Rightarrow> Message option" where
  "NewMetadataMessage D md =
     (case MarshalMetadata D md of
        None \<Rightarrow> None
      | Some pl \<Rightarrow> Some \<lparr>Type = MsgTypeMetadata, Payload = pl\<rparr>)"

subsection \<open>Paths\<close>

text \<open>
  \<^verbatim>\<open>filepath.Join\<close> of the standard library, for \<^verbatim>\<open>/\<close>-separated paths, as documented: the
  elements from the first non-empty one on are joined with the separator and the result is
  cleaned. \<^verbatim>\<open>Clean\<close> drops empty and \<^verbatim>\<open>.\<close> elements, lets each \<^verbatim>\<open>..\<close> cancel the element before
  it (unless that is a \<^verbatim>\<open>..\<close> itself), drops a \<^verbatim>\<open>..\<close> at the root, and returns \<^verbatim>\<open>.\<close> for an
  empty result.
\<close>

fun split_sep :: "string \<Rightarrow> string list" where
  "split_sep [] = [[]]"
| "split_sep (c # cs) =
     (if c = CHR ''/'' then [] # split_sep cs
      else (case split_sep cs of [] \<Rightarrow> [[c]] | x # xs \<Rightarrow> (c # x) # xs))"

fun join_sep :: "string list \<Rightarrow> string" where
  "join_sep [] = []"
| "join_sep [x] = x"
| "join_sep (x # y # zs) = x @ ''/'' @ join_sep (y # zs)"

fun clean_elems :: "bool \<Rightarrow> string list \<Rightarrow> string list \<Rightarrow> string list" where
  "clean_elems rooted out [] = out"
| "clean_elems rooted out (e # es) =
     (if e = [] \<or> e = ''.'' then clean_elems rooted out es
      else if e = ''..'' then
        (if out \<noteq> [] \<and> last out \<noteq> ''..'' then clean_elems rooted (butlast out) es
         else if rooted then clean_elems rooted out es
         else clean_elems rooted (out @ [''..'']) es)
      else clean_elems rooted (out @ [e]) es)"

definition filepath_Clean :: "string \<Rightarrow> string" where
  "filepath_Clean path =
     (case path of
        [] \<Rightarrow> ''.''
      | c # cs \<Rightarrow>
          (let rooted = (c = CHR ''/'');
               body = join_sep (clean_elems rooted [] (split_sep path))
           in if rooted then CHR ''/'' # body else if body = [] then ''.'' else body))"

definition filepath_Join :: "string \<Rightarrow> string \<Rightarrow> string" where
  "filepath_Join a b =
     (if a \<noteq> [] then filepath_Clean (a @ ''/'' @ b)
      else if b \<noteq> [] then filepath_Clean b
      else [])"

text \<open>
  \<^verbatim>\<open>filepath.Base\<close> gives the last element of the path, after trailing separators are removed
  (\<^verbatim>\<open>.\<close> for the empty path, the separator for a path of separators only); \<^verbatim>\<open>filepath.Ext\<close> the
  suffix of the last element that starts at its last dot, or the empty string.
\<close>

definition filepath_Base :: "string \<Rightarrow> string" where
  "filepath_Base path =
     (if path = [] then ''.''
      else (let p = rev (dropWhile (\<lambda>c. c = CHR ''/'') (rev path))
            in if p = [] then ''/'' else rev (takeWhile (\<lambda>c. c \<noteq> CHR ''/'') (rev p))))"

definition filepath_Ext :: "string \<Rightarrow> string" where
  "filepath_Ext path =
     (let b = rev (takeWhile (\<lambda>c. c \<noteq> CHR ''/'') (rev path))
      in if CHR ''.'' \<in> set b then CHR ''.'' # rev (takeWhile (\<lambda>c. c \<noteq> CHR ''.'') (rev b))
         else [])"

subsection \<open>Sender: SendFile\<close>

text \<open>
  The calls of \<^verbatim>\<open>SendFile\<close> that can fail, those of iteration \<open>k\<close> of the loop with their index.
  The environment says which of them return an error (\<open>fails\<close>; for \<^verbatim>\<open>make\<close>, a panic), whether
  the context is done at the poll that opens iteration \<open>k\<close> (\<open>ctx_done\<close>), what the file holds
  (\<open>content\<close>; a read of a regular file fills the buffer up to the end of the file), and the
  reading of \<^verbatim>\<open>time.Since(startTime)\<close> at the end.
\<close>

datatype call_site =
    OpenFile
  | StatFile
  | ReadAllFile
  | SeekFile
  | EncryptMetadata
  | WriteMetadata
  | MakeBuffer
  | ReadChunk nat
  | EncryptChunk nat
  | WriteChunk nat
  | EncryptCancel nat
  | EncryptComplete
  | WriteComplete

record send_env =
  content :: "byte list"
  fails :: "call_site \<Rightarrow> bool"
  ctx_done :: "nat \<Rightarrow> bool"
  send_elapsed :: int

datatype send_error =
    OpenFailed
  | StatFailed
  | ReadForChecksumFailed
  | SeekFailed
  | MetadataMessageFailed
  | EncryptMetadataFailed
  | SendMetadataFailed
  | ContextErr
  | ReadFileFailed
  | EncryptChunkFailed
  | SendChunkFailed
  | EncryptCompleteFailed
  | SendCompleteFailed
  | Panic string
  | EmptyBufferLoop

text \<open>
  The result of \<^verbatim>\<open>SendFile\<close> is its return value together with the messages handed to
  \<^verbatim>\<open>s.conn.WriteMessage\<close> (after encryption), in order. The part after the loop:
\<close>

type_synonym send_result = "(send_error + Stats) \<times> Message list"

definition send_complete :: "send_env \<Rightarrow> Message list \<Rightarrow> int \<Rightarrow> send_result" where
  "send_complete E out bytesSent =
     (if fails E EncryptComplete then (Inl EncryptCompleteFailed, out)
      else if fails E WriteComplete then (Inl SendCompleteFailed, out @ [NewCompleteMessage])
      else (Inr (final_Stats (send_elapsed E) bytesSent), out @ [NewCompleteMessage]))"

text \<open>
  The loop: \<open>cs\<close> is the length of the buffer, \<open>k\<close> the number of the iteration, \<open>rest\<close> the part of
  the file not read yet. When the context is done the Cancel message is sent if its encryption
  succeeds (the error of the write is dropped), and \<^verbatim>\<open>ctx.Err()\<close> is returned. With an empty
  buffer the source would send empty chunks forever; \<^verbatim>\<open>SendFile\<close> never enters the loop so (a
  zero chunk size panics at the division before).
\<close>

function send_loop ::
  "send_env \<Rightarrow> nat \<Rightarrow> nat \<Rightarrow> byte list \<Rightarrow> Message list \<Rightarrow> int \<Rightarrow> send_result" where
  "send_loop E cs k rest out bytesSent =
     (if ctx_done E k then
        (Inl ContextErr,
         if fails E (EncryptCancel k) then out
         else out @ [NewCancelMessage ''cancelled by sender''])
      else if fails E (ReadChunk k) then (Inl ReadFileFailed, out)
      else if rest = [] then send_complete E out bytesSent
      else if cs = 0 then (Inl EmptyBufferLoop, out)
      else if fails E (EncryptChunk k) then (Inl EncryptChunkFailed, out)
      else if fails E (WriteChunk k)
        then (Inl SendChunkFailed, out @ [NewChunkMessage (take cs rest)])
      else send_loop E cs (Suc k) (drop cs rest) (out @ [NewChunkMessage (take cs rest)])
             (bytesSent + int (length (take cs rest))))"
  by pat_completeness auto
termination
  by (relation "measure (\<lambda>(E, cs, k, rest, out, bytesSent). length rest)") auto

text \<open>
  \<^verbatim>\<open>int64\<close> arithmetic wraps around; Go's integer division truncates towards zero (\<open>sdiv\<close>).
\<close>

definition wrap64 :: "int \<Rightarrow> int" where
  "wrap64 x = (x + 2 ^ 63) mod 2 ^ 64 - 2 ^ 63"

text \<open>
  The metadata of the file, as \<^verbatim>\<open>SendFile\<close> builds it before anything is sent: \<open>data\<close> is what
  \<^verbatim>\<open>io.ReadAll\<close> returned, whose length is the \<^verbatim>\<open>stat.Size()\<close> of a file that does not change
  meanwhile.
\<close>

definition build_metadata :: "deps \<Rightarrow> Sender \<Rightarrow> string \<Rightarrow> byte list \<Rightarrow> Metadata" where
  "build_metadata D s filePath data =
     (let checksum = ComputeChecksum D data;
          filename = filepath_Base filePath;
          fileSize = int (length data);
          cs = ChunkSize (config s);
          totalChunks = wrap64 (wrap64 (fileSize + cs) - 1) sdiv cs;
          mt = mime_TypeByExtension D (filepath_Ext filePath);
          mimeType = (if mt = [] then ''application/octet-stream'' else mt)
      in \<lparr>Filename = filename, Size = fileSize, Chunks = totalChunks, Checksum = checksum,
          MimeType = mimeType, BatchIndex = 0, BatchTotal = 1\<rparr>)"

definition SendFile :: "deps \<Rightarrow> send_env \<Rightarrow> Sender \<Rightarrow> string \<Rightarrow> send_result" where
  "SendFile D E s filePath =
     (if fails E OpenFile then (Inl OpenFailed, [])
      else if fails E StatFile then (Inl StatFailed, [])
      else if fails E ReadAllFile then (Inl ReadForChecksumFailed, [])
      else if fails E SeekFile then (Inl SeekFailed, [])
      else if ChunkSize (config s) = 0 then (Inl (Panic ''integer divide by zero''), [])
      else
        (case NewMetadataMessage D (build_metadata D s filePath (content E)) of
           None \<Rightarrow> (Inl MetadataMessageFailed, [])
         | Some metaMsg \<Rightarrow>
             if fails E EncryptMetadata then (Inl EncryptMetadataFailed, [])
             else if fails E WriteMetadata then (Inl SendMetadataFailed, [metaMsg])
             else if ChunkSize (config s) < 0 \<or> fails E MakeBuffer
               then (Inl (Panic ''makeslice: len out of range''), [metaMsg])
             else send_loop E (nat (ChunkSize (config s))) 0 (content E) [metaMsg] 0))"

subsection \<open>Receiver: ReceiveFile\<close>

text \<open>
  The disk maps a path to the content of the file there. \<^verbatim>\<open>os.Create\<close> makes or truncates the
  file (the empty path names no file: the call fails), \<^verbatim>\<open>file.Write\<close> appends to the file the
  handle was opened on, \<^verbatim>\<open>os.Remove\<close> unlinks it (its error is dropped by the source; the empty
  path removes nothing). A handle is identified with the path it was opened on: the function
  returns right after every \<^verbatim>\<open>os.Remove\<close>.
\<close>

type_synonym disk = "string \<Rightarrow> byte list option"

definition os_Create :: "disk \<Rightarrow> string \<Rightarrow> disk" where
  "os_Create d p = d(p \<mapsto> [])"

definition file_Write :: "disk \<Rightarrow> string \<Rightarrow> byte list \<Rightarrow> disk" where
  "file_Write d p data = (case d p of None \<Rightarrow> d | Some old \<Rightarrow> d(p \<mapsto> old @ data))"

definition os_Remove :: "disk \<Rightarrow> string \<Rightarrow> disk" where
  "os_Remove d p = (if p = [] then d else d(p := None))"

text \<open>
  The local variables of \<^verbatim>\<open>ReceiveFile\<close>, and the disk. \<open>file'\<close> is the variable \<^verbatim>\<open>file\<close>,
  \<open>None\<close> the nil handle.
\<close>

record recv_state =
  metadata :: Metadata
  file' :: "string option"
  bytesReceived :: int
  destPath :: string
  fileContent :: "byte list"
  disk :: disk

definition recv_init :: "disk \<Rightarrow> recv_state" where
  "recv_init d =
     \<lparr>metadata = zero_Metadata, file' = None, bytesReceived = 0, destPath = [],
      fileContent = [], disk = d\<rparr>"

text \<open>
  What one iteration of the loop meets: the context is done at the poll; or the read, the
  decryption or the decoding fails; or a message is decoded, and \<open>fs_ok\<close> tells whether the
  file-system call made for it (\<^verbatim>\<open>os.Create\<close> for Metadata, \<^verbatim>\<open>file.Write\<close> for Chunk) succeeds.
\<close>

datatype recv_event =
    CtxDone
  | ReadFails
  | DecryptFails
  | DecodeFails
  | Frame Message bool

datatype recv_error =
    CancelledByReceiver
  | ReadMessageFailed
  | DecryptFailed
  | DecodeFailed
  | ParseMetadataFailed
  | CreateFileFailed
  | ChunkBeforeMetadata
  | WriteChunkFailed
  | ChecksumMismatch string string
  | SenderCancelled string
  | SenderError string
  | MakeSlicePanic

text \<open>
  The value returned: \<open>Inl\<close> for an error (the source returns the empty path and zero
  statistics with it), \<open>Inr\<close> the saved path and the statistics. \<open>MakeSlicePanic\<close> is no
  returned error: it marks the exit by the run-time panic of
  \<^verbatim>\<open>make([]byte, 0, metadata.Size)\<close>, which a negative declared size, or one that cannot be
  allocated, raises after the file has been created. The deferred \<^verbatim>\<open>file.Close()\<close> runs and the
  file stays.
\<close>

type_synonym recv_result = "recv_error + string \<times> Stats"

definition remove_if_open :: "recv_state \<Rightarrow> recv_state" where
  "remove_if_open st =
     (if file' st \<noteq> None then st\<lparr>disk := os_Remove (disk st) (destPath st)\<rparr> else st)"

text \<open>
  The body of the loop for a decoded message: the \<^verbatim>\<open>switch msg.Type\<close>. A type without a case
  (Ready) falls through to the next iteration.
\<close>

definition recv_message ::
  "deps \<Rightarrow> string \<Rightarrow> int \<Rightarrow> recv_state \<Rightarrow> Message \<Rightarrow> bool \<Rightarrow> recv_state \<times> recv_result option" where
  "recv_message D destDir elapsed st msg fs_ok =
     (case Type msg of
        MsgTypeMetadata \<Rightarrow>
          (case ParseMetadata D (Payload msg) of
             None \<Rightarrow> (st, Some (Inl ParseMetadataFailed))
           | Some md \<Rightarrow>
               (let st1 = st\<lparr>metadata := md, destPath := filepath_Join destDir (Filename md)\<rparr>
                in if fs_ok \<and> destPath st1 \<noteq> []
                   then
                     (let st2 = st1\<lparr>file' := Some (destPath st1),
                                     disk := os_Create (disk st1) (destPath st1)\<rparr>
                      in if Size md < 0 \<or> \<not> makeslice_ok D (Size md)
                         then (st2, Some (Inl MakeSlicePanic))
                         else (st2\<lparr>fileContent := []\<rparr>, None))
                   else (st1\<lparr>file' := None\<rparr>, Some (Inl CreateFileFailed))))
      | MsgTypeChunk \<Rightarrow>
          (case file' st of
             None \<Rightarrow> (st, Some (Inl ChunkBeforeMetadata))
           | Some f \<Rightarrow>
               if fs_ok
               then (st\<lparr>disk := file_Write (disk st) f (Payload msg),
                         fileContent := fileContent st @ Payload msg,
                         bytesReceived := bytesReceived st + int (length (Payload msg))\<rparr>, None)
               else (st\<lparr>disk := os_Remove (disk st) (destPath st)\<rparr>,
                     Some (Inl WriteChunkFailed)))
      | MsgTypeComplete \<Rightarrow>
          (if Checksum (metadata st) \<noteq> []
              \<and> ComputeChecksum D (fileContent st) \<noteq> Checksum (metadata st)
           then (st\<lparr>disk := os_Remove (disk st) (destPath st)\<rparr>,
                 Some (Inl (ChecksumMismatch (Checksum (metadata st))
                              (ComputeChecksum D (fileContent st)))))
           else (st, Some (Inr (destPath st, final_Stats elapsed (bytesReceived st)))))
      | MsgTypeCancel \<Rightarrow>
          (st\<lparr>disk := os_Remove (disk st) (destPath st)\<rparr>,
           Some (Inl (SenderCancelled (Payload msg))))
      | MsgTypeError \<Rightarrow>
          (st\<lparr>disk := os_Remove (disk st) (destPath st)\<rparr>,
           Some (Inl (SenderError (Payload msg))))
      | MsgTypeReady \<Rightarrow> (st, None))"

fun recv_step ::
  "deps \<Rightarrow> string \<Rightarrow> int \<Rightarrow> recv_state \<Rightarrow> recv_event \<Rightarrow> recv_state \<times> recv_result option" where
  "recv_step D destDir elapsed st CtxDone = (remove_if_open st, Some (Inl CancelledByReceiver))"
| "recv_step D destDir elapsed st ReadFails = (remove_if_open st, Some (Inl ReadMessageFailed))"
| "recv_step D destDir elapsed st DecryptFails = (remove_if_open st, Some (Inl DecryptFailed))"
| "recv_step D destDir elapsed st DecodeFails = (remove_if_open st, Some (Inl DecodeFailed))"
| "recv_step D destDir elapsed st (Frame msg fs_ok) = recv_message D destDir elapsed st msg fs_ok"

text \<open>
  The loop, over the iterations the environment provides. \<open>None\<close> as the result says that the
  loop has not returned yet and waits for the next frame. \<open>elapsed\<close> is the reading of
  \<^verbatim>\<open>time.Since(startTime)\<close> taken when Complete is handled.
\<close>

fun recv_loop ::
  "deps \<Rightarrow> string \<Rightarrow> int \<Rightarrow> recv_state \<Rightarrow> recv_event list \<Rightarrow> recv_state \<times> recv_result option" where
  "recv_loop D destDir elapsed st [] = (st, None)"
| "recv_loop D destDir elapsed st (ev # evs) =
     (case recv_step D destDir elapsed st ev of
        (st', Some r) \<Rightarrow> (st', Some r)
      | (st', None) \<Rightarrow> recv_loop D destDir elapsed st' evs)"

definition ReceiveFile ::
  "deps \<Rightarrow> string \<Rightarrow> int \<Rightarrow> disk \<Rightarrow> recv_event list \<Rightarrow> recv_state \<times> recv_result option" where
  "ReceiveFile D destDir elapsed d evs = recv_loop D destDir elapsed (recv_init d) evs"


subsection \<open>Relay: rooms and the room manager\<close>

text \<open>
  A connection (\<^verbatim>\<open>*websocket.Conn\<close>) is identified by a number. The handlers keep a pointer to
  their \<^verbatim>\<open>Room\<close> after the room has left the table, so rooms live in a store \<open>heap\<close>
  addressed by numbers, and the table \<^verbatim>\<open>rm.rooms\<close> maps a token to an address. The table is an
  association list with one entry per token, so that the sweep can iterate over it. Each
  critical section of the source (the code between \<^verbatim>\<open>Lock\<close> and \<^verbatim>\<open>Unlock\<close> of one mutex) is one
  atomic step of the model; steps of different handlers interleave in any order.
\<close>

type_synonym conn = nat

record Room =
  token :: string
  clients :: "conn list"
  createdAt :: int

datatype frame = BinaryMessage "byte list" | CloseMessage nat string

definition ClosePolicyViolation :: nat where
  "ClosePolicyViolation = 1008"

text \<open>The program points of \<^verbatim>\<open>handleWebSocket\<close> between its critical sections.\<close>

datatype handler_pc =
    AtAddClient nat
  | Reading nat
  | AtEmptyCheck nat
  | AtDeleteRoom nat
  | AtRemoveClient nat
  | Finished

record relay =
  rooms :: "(string \<times> nat) list"
  heap :: "nat \<Rightarrow> Room"
  next_addr :: nat
  handlers :: "conn \<Rightarrow> (string \<times> handler_pc) option"
  closed :: "conn list"
  written :: "(conn \<times> frame) list"

definition NewRoomManager :: relay where
  "NewRoomManager =
     \<lparr>rooms = [], heap = (\<lambda>a. \<lparr>token = [], clients = [], createdAt = 0\<rparr>), next_addr = 0,
      handlers = (\<lambda>c. None), closed = [], written = []\<rparr>"

definition GetOrCreateRoom :: "relay \<Rightarrow> string \<Rightarrow> int \<Rightarrow> nat \<times> relay" where
  "GetOrCreateRoom rm tok now =
     (case map_of (rooms rm) tok of
        Some a \<Rightarrow> (a, rm)
      | None \<Rightarrow>
          (next_addr rm,
           rm\<lparr>heap := (heap rm)(next_addr rm := \<lparr>token = tok, clients = [], createdAt = now\<rparr>),
              next_addr := Suc (next_addr rm),
              rooms := rooms rm @ [(tok, next_addr rm)]\<rparr>))"

definition DeleteRoom :: "relay \<Rightarrow> string \<Rightarrow> relay" where
  "DeleteRoom rm tok = rm\<lparr>rooms := filter (\<lambda>(t, a). t \<noteq> tok) (rooms rm)\<rparr>"

definition AddClient :: "Room \<Rightarrow> conn \<Rightarrow> bool \<times> Room" where
  "AddClient room c =
     (if length (clients room) \<ge> 2 then (False, room)
      else (True, room\<lparr>clients := clients room @ [c]\<rparr>))"

text \<open>The loop of \<^verbatim>\<open>RemoveClient\<close> deletes the first occurrence of the connection and stops.\<close>

definition RemoveClient :: "Room \<Rightarrow> conn \<Rightarrow> Room" where
  "RemoveClient room c = room\<lparr>clients := remove1 c (clients room)\<rparr>"

text \<open>\<^verbatim>\<open>Broadcast\<close> returns the frames it writes; write errors are ignored by the source.\<close>

definition Broadcast :: "Room \<Rightarrow> conn \<Rightarrow> byte list \<Rightarrow> (conn \<times> frame) list" where
  "Broadcast room sender message =
     map (\<lambda>c. (c, BinaryMessage message)) (filter (\<lambda>c. c \<noteq> sender) (clients room))"

text \<open>
  One pass of the loop body of \<^verbatim>\<open>cleanupLoop\<close> over the table at time \<open>now\<close>: the entries that
  stay, and the connections that are closed. (The source reads the clock for each room of a
  pass; the pass holds the table lock and one reading stands for them.)
\<close>

fun cleanup_rooms :: "(nat \<Rightarrow> Room) \<Rightarrow> int \<Rightarrow> (string \<times> nat) list
    \<Rightarrow> (string \<times> nat) list \<times> conn list" where
  "cleanup_rooms h now [] = ([], [])"
| "cleanup_rooms h now ((tok, a) # rs) =
     (let (keep, cl) = cleanup_rooms h now rs
      in if now - createdAt (h a) > 10 * Minute then (keep, clients (h a) @ cl)
         else ((tok, a) # keep, cl))"

definition cleanup_tick :: "relay \<Rightarrow> int \<Rightarrow> relay" where
  "cleanup_tick rm now =
     (let (keep, cl) = cleanup_rooms (heap rm) now (rooms rm)
      in rm\<lparr>rooms := keep, closed := closed rm @ cl\<rparr>)"



subsection \<open>Relay: handleWebSocket\<close>

text \<open>
  What can happen at the relay: a request with a path token is upgraded to a connection and its
  handler runs \<^verbatim>\<open>GetOrCreateRoom\<close> at time \<open>now\<close>; a handler runs its next critical section; a
  handler's \<^verbatim>\<open>ReadMessage\<close> returns a frame (binary or not) or an error; the ticker fires.
\<close>

datatype event =
    Accept conn string int
  | Step conn
  | ReadFrame conn bool "byte list"
  | ReadError conn
  | Tick int

definition set_pc :: "relay \<Rightarrow> conn \<Rightarrow> string \<Rightarrow> handler_pc \<Rightarrow> relay" where
  "set_pc rm c tok p = rm\<lparr>handlers := (handlers rm)(c \<mapsto> (tok, p))\<rparr>"

text \<open>
  The handler's own steps. The deferred calls run when the function returns, last deferred
  first: \<^verbatim>\<open>room.RemoveClient(conn)\<close>, then \<^verbatim>\<open>conn.Close()\<close>. The emptiness check and
  \<^verbatim>\<open>DeleteRoom\<close> are in the function body, before the deferred calls.
\<close>

fun handleWebSocket :: "relay \<Rightarrow> conn \<Rightarrow> string \<Rightarrow> handler_pc \<Rightarrow> relay" where
  "handleWebSocket rm c tok (AtAddClient a) =
     (case AddClient (heap rm a) c of
        (False, room) \<Rightarrow>
          set_pc (rm\<lparr>written := written rm @ [(c, CloseMessage ClosePolicyViolation ''room full'')],
                     closed := closed rm @ [c]\<rparr>) c tok Finished
      | (True, room) \<Rightarrow> set_pc (rm\<lparr>heap := (heap rm)(a := room)\<rparr>) c tok (Reading a))"
| "handleWebSocket rm c tok (Reading a) = rm"
| "handleWebSocket rm c tok (AtEmptyCheck a) =
     (if length (clients (heap rm a)) = 0 then set_pc rm c tok (AtDeleteRoom a)
      else set_pc rm c tok (AtRemoveClient a))"
| "handleWebSocket rm c tok (AtDeleteRoom a) = set_pc (DeleteRoom rm tok) c tok (AtRemoveClient a)"
| "handleWebSocket rm c tok (AtRemoveClient a) =
     set_pc (rm\<lparr>heap := (heap rm)(a := RemoveClient (heap rm a) c),
                closed := closed rm @ [c]\<rparr>) c tok Finished"
| "handleWebSocket rm c tok Finished = rm"

fun step :: "relay \<Rightarrow> event \<Rightarrow> relay" where
  "step rm (Accept c tok now) =
     (if tok = [] \<or> handlers rm c \<noteq> None then rm
      else (case GetOrCreateRoom rm tok now of (a, rm') \<Rightarrow> set_pc rm' c tok (AtAddClient a)))"
| "step rm (Step c) =
     (case handlers rm c of None \<Rightarrow> rm | Some (tok, p) \<Rightarrow> handleWebSocket rm c tok p)"
| "step rm (ReadFrame c binary message) =
     (case handlers rm c of
        Some (tok, Reading a) \<Rightarrow>
          if c \<in> set (closed rm) then set_pc rm c tok (AtEmptyCheck a)
          else if binary then rm\<lparr>written := written rm @ Broadcast (heap rm a) c message\<rparr>
          else rm
      | _ \<Rightarrow> rm)"
| "step rm (ReadError c) =
     (case handlers rm c of
        Some (tok, Reading a) \<Rightarrow> set_pc rm c tok (AtEmptyCheck a)
      | _ \<Rightarrow> rm)"
| "step rm (Tick now) = cleanup_tick rm now"

definition run :: "relay \<Rightarrow> event list \<Rightarrow> relay" where
  "run rm evs = foldl step rm evs"


subsection \<open>Relay: invariants and scenarios\<close>

definition cap_inv :: "relay \<Rightarrow> bool" where
  "cap_inv rm = (\<forall>a. length (clients (heap rm a)) \<le> 2)"

definition single_visit :: "event list" where
  "single_visit = [Accept 1 ''t'' 0, Step 1, ReadError 1, Step 1, Step 1]"

fun pc_ok :: "relay \<Rightarrow> conn \<Rightarrow> handler_pc \<Rightarrow> bool" where
  "pc_ok rm c (AtAddClient a) = (a < next_addr rm)"
| "pc_ok rm c (Reading a) = (a < next_addr rm \<and> c \<in> set (clients (heap rm a)))"
| "pc_ok rm c (AtEmptyCheck a) = (a < next_addr rm \<and> c \<in> set (clients (heap rm a)))"
| "pc_ok rm c (AtDeleteRoom a) = False"
| "pc_ok rm c (AtRemoveClient a) = (a < next_addr rm \<and> c \<in> set (clients (heap rm a)))"
| "pc_ok rm c Finished = True"

definition member_inv :: "relay \<Rightarrow> bool" where
  "member_inv rm = (\<forall>c tok p. handlers rm c = Some (tok, p) \<longrightarrow> pc_ok rm c p)"

definition table_wf :: "relay \<Rightarrow> bool" where
  "table_wf rm = (\<forall>t b. (t, b) \<in> set (rooms rm) \<longrightarrow> b < next_addr rm)"

text \<open>
  The table is well formed when no token has two entries, no room is entered twice, and every
  entry leads to a room that carries the entry's token. \<open>ticks\<close> are the times of the sweeps of a
  sequence of events; \<open>keeps T ev\<close> tells whether the event \<open>ev\<close> leaves a room created at \<open>T\<close> in
  the table.
\<close>

definition table_ok :: "relay \<Rightarrow> bool" where
  "table_ok rm =
     (distinct (map fst (rooms rm)) \<and> distinct (map snd (rooms rm))
      \<and> (\<forall>t a. (t, a) \<in> set (rooms rm) \<longrightarrow> token (heap rm a) = t))"



definition relay_inv :: "relay \<Rightarrow> bool" where
  "relay_inv rm = (member_inv rm \<and> table_wf rm \<and> table_ok rm)"

text \<open>
  Scenarios. Three connections ask for the same token: each handler joins before the next
  request arrives (\<open>join_in_turn\<close>), or all three have looked the room up before the third, the
  first and the second call \<^verbatim>\<open>AddClient\<close> in that order (\<open>join_crossed\<close>). \<open>two_tokens\<close> is the
  relay after three requests for the token \<^verbatim>\<open>t\<close>. \<open>late_room\<close> is the relay after one request at
  minute 60; \<open>late_activity\<close> is what follows: two joins and a sweep at minute 70. In
  \<open>sweep_race\<close> a sweep comes between the room lookup and the \<^verbatim>\<open>AddClient\<close> of the second
  connection, and two more connections ask for the token afterwards.
\<close>

definition join_in_turn :: "string \<Rightarrow> conn \<Rightarrow> conn \<Rightarrow> conn \<Rightarrow> int \<Rightarrow> event list" where
  "join_in_turn tok c1 c2 c3 now =
     [Accept c1 tok now, Step c1, Accept c2 tok now, Step c2, Accept c3 tok now, Step c3]"

definition join_crossed :: "string \<Rightarrow> conn \<Rightarrow> conn \<Rightarrow> conn \<Rightarrow> int \<Rightarrow> event list" where
  "join_crossed tok c1 c2 c3 now =
     [Accept c1 tok now, Accept c2 tok now, Accept c3 tok now, Step c3, Step c1, Step c2]"

definition two_tokens :: relay where
  "two_tokens = run NewRoomManager (join_in_turn ''t'' 1 2 3 0)"

definition sweep_race :: "event list" where
  "sweep_race =
     [Accept 1 ''t'' 0, Step 1, Accept 2 ''t'' (11 * Minute), Tick (11 * Minute), Step 2,
      Accept 3 ''t'' (12 * Minute), Step 3, Accept 4 ''t'' (12 * Minute), Step 4]"



subsection \<open>Receiver: invariants and scenarios\<close>

text \<open>
  Stand-ins for the functions that are not among the sources, for concrete runs: a parser that
  knows four payloads (the first declares no checksum, the second declares one, the third names
  a file in the parent directory, the fourth declares a negative size), a checksum that, like a
  hexadecimal digest, is never empty, and an allocator with a bound.
\<close>

definition sample_ParseMetadata :: "byte list \<Rightarrow> Metadata option" where
  "sample_ParseMetadata pl =
     (if pl = ''m1'' then
        Some \<lparr>Filename = ''f.txt'', Size = 5, Chunks = 1, Checksum = [], MimeType = ''text/plain'',
              BatchIndex = 0, BatchTotal = 1\<rparr>
      else if pl = ''m2'' then
        Some \<lparr>Filename = ''g.txt'', Size = 5, Chunks = 1, Checksum = ''#hello'',
              MimeType = ''text/plain'', BatchIndex = 0, BatchTotal = 1\<rparr>
      else if pl = ''m3'' then
        Some \<lparr>Filename = ''../evil.txt'', Size = 2, Chunks = 1, Checksum = [],
              MimeType = ''text/plain'', BatchIndex = 0, BatchTotal = 1\<rparr>
      else if pl = ''m4'' then
        Some \<lparr>Filename = ''h.txt'', Size = - 1, Chunks = 1, Checksum = [],
              MimeType = ''text/plain'', BatchIndex = 0, BatchTotal = 1\<rparr>
      else None)"

definition sample_deps :: deps where
  "sample_deps =
     \<lparr>ComputeChecksum = (\<lambda>b. CHR ''#'' # b),
      ParseMetadata = sample_ParseMetadata,
      MarshalMetadata = (\<lambda>md. Some (Filename md)),
      mime_TypeByExtension = (\<lambda>e. if e = ''.txt'' then ''text/plain'' else []),
      makeslice_ok = (\<lambda>n. n \<le> 2 ^ 47)\<rparr>"

text \<open>
  Concrete streams of frames: a transfer whose metadata declares no checksum and five bytes, of
  which two arrive; a transfer interrupted by a second, unreadable Metadata; a Metadata that
  declares a negative size; a transfer cancelled by the receiver after the first chunk; a
  transfer whose declared checksum matches.
\<close>

definition unverified_run :: "recv_event list" where
  "unverified_run =
     [Frame \<lparr>Type = MsgTypeMetadata, Payload = ''m1''\<rparr> True,
      Frame (NewChunkMessage ''he'') True,
      Frame NewCompleteMessage True]"

definition second_metadata_run :: "recv_event list" where
  "second_metadata_run =
     [Frame \<lparr>Type = MsgTypeMetadata, Payload = ''m2''\<rparr> True,
      Frame (NewChunkMessage ''he'') True,
      Frame \<lparr>Type = MsgTypeMetadata, Payload = ''??''\<rparr> True]"

definition negative_size_run :: "recv_event list" where
  "negative_size_run = [Frame \<lparr>Type = MsgTypeMetadata, Payload = ''m4''\<rparr> True]"

definition cancelled_run :: "recv_event list" where
  "cancelled_run =
     [Frame \<lparr>Type = MsgTypeMetadata, Payload = ''m2''\<rparr> True,
      Frame (NewChunkMessage ''he'') True,
      CtxDone]"

definition verified_run :: "recv_event list" where
  "verified_run =
     [Frame \<lparr>Type = MsgTypeMetadata, Payload = ''m2''\<rparr> True,
      Frame (NewChunkMessage ''hel'') True,
      Frame (NewChunkMessage ''lo'') True,
      Frame NewCompleteMessage True]"

definition chunk_frames :: "byte list list \<Rightarrow> recv_event list" where
  "chunk_frames chunks = map (\<lambda>c. Frame (NewChunkMessage c) True) chunks"

text \<open>
  \<open>received_bytes\<close> is the content the sender transmitted: the payloads of the chunks up to the
  first Complete, in order.
\<close>

definition is_metadata :: "recv_event \<Rightarrow> bool" where
  "is_metadata ev = (case ev of Frame msg ok \<Rightarrow> Type msg = MsgTypeMetadata | _ \<Rightarrow> False)"

fun received_bytes :: "recv_event list \<Rightarrow> byte list" where
  "received_bytes [] = []"
| "received_bytes (Frame msg ok # evs) =
     (if Type msg = MsgTypeChunk then Payload msg @ received_bytes evs
      else if Type msg = MsgTypeComplete then []
      else received_bytes evs)"
| "received_bytes (ev # evs) = received_bytes evs"

text \<open>
  The state of the loop between the (single) Metadata and the exit, and what an exit leaves
  on the disk \<open>d\<close> it started from.
\<close>

definition receiving :: "string \<Rightarrow> disk \<Rightarrow> recv_state \<Rightarrow> bool" where
  "receiving destDir d st =
     (destPath st = filepath_Join destDir (Filename (metadata st)) \<and> destPath st \<noteq> []
      \<and> file' st = Some (destPath st) \<and> disk st = d(destPath st \<mapsto> fileContent st))"

definition exit_ok :: "deps \<Rightarrow> string \<Rightarrow> disk \<Rightarrow> recv_state \<Rightarrow> recv_result \<Rightarrow> bool" where
  "exit_ok D destDir d st r =
     (case r of
        Inl e \<Rightarrow> e = MakeSlicePanic \<or> disk st = d \<or> disk st = d(destPath st := None)
      | Inr (p, stats) \<Rightarrow>
          (p = [] \<and> disk st = d)
          \<or> (p \<noteq> [] \<and> p = filepath_Join destDir (Filename (metadata st))
              \<and> disk st = d(p \<mapsto> fileContent st)
              \<and> (Checksum (metadata st) = [] \<or> ComputeChecksum D (fileContent st) = Checksum (metadata st))))"

subsection \<open>Receiver: a complete transfer\<close>

text \<open>
  The state after a run of chunks that are all written, and the stream of a transfer that
  escapes the destination directory.
\<close>

fun after_chunks :: "recv_state \<Rightarrow> byte list list \<Rightarrow> recv_state" where
  "after_chunks st [] = st"
| "after_chunks st (c # cs) =
     after_chunks (st\<lparr>disk := file_Write (disk st) (destPath st) c,
                     fileContent := fileContent st @ c,
                     bytesReceived := bytesReceived st + int (length c)\<rparr>) cs"

definition escaping_run :: "recv_event list" where
  "escaping_run =
     [Frame \<lparr>Type = MsgTypeMetadata, Payload = ''m3''\<rparr> True,
      Frame (NewChunkMessage ''hi'') True,
      Frame NewCompleteMessage True]"

subsection \<open>Sender: the stream of chunks, and scenarios\<close>

text \<open>
  The spec's words for the stream of chunks: the fixed-size slices of the content, in file
  order. This function is not taken from the source; the loop of \<^verbatim>\<open>SendFile\<close> is compared with it.
\<close>

function chunks_of :: "nat \<Rightarrow> 'a list \<Rightarrow> 'a list list" where
  "chunks_of n xs = (if n = 0 \<or> xs = [] then [] else take n xs # chunks_of n (drop n xs))"
  by pat_completeness auto
termination
  by (relation "measure (\<lambda>(n, xs). length xs)") auto

declare chunks_of.simps [simp del]

text \<open>
  Concrete senders and environments: the default configuration (chunk size 65536), a chunk
  size of four bytes and a chunk size of \<open>-1\<close> (\<^verbatim>\<open>--chunk-size -1\<close>); a file of 150000 bytes and
  a file of eleven bytes sent without failure or cancellation; a cancellation at the first
  checkpoint whose Cancel message cannot be encrypted; a cancellation
  after the first of three chunks.
\<close>

definition default_sender :: Sender where
  "default_sender =
     NewSender ''wss://pulse.relay.app'' ''t'' []
       \<lparr>ChunkSize = 0, Timeout = 0, Retries = 0, Debug = False\<rparr>"

definition small_sender :: Sender where
  "small_sender =
     NewSender ''wss://pulse.relay.app'' ''t'' []
       \<lparr>ChunkSize = 4, Timeout = 0, Retries = 0, Debug = False\<rparr>"

definition quiet_env :: send_env where
  "quiet_env =
     \<lparr>content = replicate 150000 (CHR ''a''), fails = (\<lambda>c. False), ctx_done = (\<lambda>k. False),
      send_elapsed = 3 * Second\<rparr>"

definition negative_chunk_sender :: Sender where
  "negative_chunk_sender =
     NewSender ''wss://pulse.relay.app'' ''t'' []
       \<lparr>ChunkSize = - 1, Timeout = 0, Retries = 0, Debug = False\<rparr>"

definition quiet_small_env :: send_env where
  "quiet_small_env =
     \<lparr>content = ''hello world'', fails = (\<lambda>c. False), ctx_done = (\<lambda>k. False),
      send_elapsed = 0\<rparr>"

definition cancel_unencrypted_env :: send_env where
  "cancel_unencrypted_env =
     \<lparr>content = ''hello world'', fails = (\<lambda>c. c = EncryptCancel 0), ctx_done = (\<lambda>k. True),
      send_elapsed = 0\<rparr>"

definition cancel_after_one_env :: send_env where
  "cancel_after_one_env =
     \<lparr>content = ''hello world'', fails = (\<lambda>c. False), ctx_done = (\<lambda>k. k = 1),
      send_elapsed = 0\<rparr>"

section \<open>Theorems\<close>

subsection \<open>Connect\<close>

lemma connect_loop_unfold3:
  assumes r: "Retries (config s) = 3" and f: "\<And>i. dial i = Inl (e i)"
  shows "connect_loop s dial 0 None [] =
           (Inl (ConnectFailed 3 (Some (e 2))),
            [Dial (relayURL s @ ''/ws/'' @ Sender.token s), Sleep (2 * Second),
             Dial (relayURL s @ ''/ws/'' @ Sender.token s), Sleep (4 * Second),
             Dial (relayURL s @ ''/ws/'' @ Sender.token s)])"
  by (subst connect_loop.simps) (simp add: r f Let_def)

text \<open>
  C5 (as stated, refuted). With the default three retries and a dial that always fails, the
  claim lists three backoff intervals 2s, 4s, 6s. The code sleeps only between attempts
  (\<^verbatim>\<open>if attempt < s.config.Retries-1\<close>): the intervals are 2s and 4s, and nothing is waited after
  the third failure.
\<close>

theorem C5_backoff_counterexample:
  "sleeps (snd (Connect (NewSender ''ws://r'' ''t'' []
       \<lparr>ChunkSize = 0, Timeout = 0, Retries = 0, Debug = False\<rparr>)
       (\<lambda>i. Inl ''refused'' :: string + unit)))
   \<noteq> [2 * Second, 4 * Second, 6 * Second]"
  unfolding Connect_def
  by (subst connect_loop_unfold3 [where e = "\<lambda>i. ''refused''"])
     (simp_all add: NewSender_def Let_def DefaultChunkSize_def Second_def)

text \<open>
  C5 (amended). With \<open>Retries = 3\<close> and every dial failing, what \<^verbatim>\<open>Connect\<close> does is, in this
  order: dial, sleep 2s, dial, sleep 4s, dial, and nothing more. So it dials exactly three
  times, sleeps \<open>(attempt + 1) \<times> 2\<close> seconds between consecutive attempts and not at all after
  the last, and returns the connection error that wraps the error of the last dial. Three is
  the number of retries that \<^verbatim>\<open>NewSender\<close> gives to a configuration that sets none.
\<close>

theorem C5_connect_retry_exhaustion:
  assumes "Retries (config s) = 3" and "\<And>i. dial i = Inl (e i)"
  shows "fst (Connect s dial) = Inl (ConnectFailed 3 (Some (e 2)))
       \<and> snd (Connect s dial)
           = [Dial (relayURL s @ ''/ws/'' @ Sender.token s), Sleep ((0 + 1) * 2 * Second),
              Dial (relayURL s @ ''/ws/'' @ Sender.token s), Sleep ((1 + 1) * 2 * Second),
              Dial (relayURL s @ ''/ws/'' @ Sender.token s)]
       \<and> dials (snd (Connect s dial)) = 3
       \<and> sleeps (snd (Connect s dial)) = [2 * Second, 4 * Second]
       \<and> sleeps (snd (Connect s dial)) = map (\<lambda>i. (int i + 1) * 2 * Second) [0..<2]
       \<and> Retries (config (NewSender url tok k (cfg\<lparr>Retries := 0\<rparr>))) = 3"
  unfolding Connect_def connect_loop_unfold3 [OF assms]
  by (simp add: numeral_2_eq_2 NewSender_def Let_def)

theorem C5_connect_retry_exhaustion_witness:
  "fst (Connect (NewSender ''ws://r'' ''t'' []
          \<lparr>ChunkSize = 0, Timeout = 0, Retries = 0, Debug = False\<rparr>)
          (\<lambda>i. Inl (''refused'', i) :: (string \<times> nat) + unit))
     = Inl (ConnectFailed 3 (Some (''refused'', 2)))
   \<and> dials (snd (Connect (NewSender ''ws://r'' ''t'' []
          \<lparr>ChunkSize = 0, Timeout = 0, Retries = 0, Debug = False\<rparr>)
          (\<lambda>i. Inl (''refused'', i) :: (string \<times> nat) + unit))) = 3
   \<and> snd (Connect (NewSender ''ws://r'' ''t'' []
          \<lparr>ChunkSize = 0, Timeout = 0, Retries = 0, Debug = False\<rparr>)
          (\<lambda>i. Inl (''refused'', i) :: (string \<times> nat) + unit))
       = [Dial ''ws://r/ws/t'', Sleep 2000000000, Dial ''ws://r/ws/t'', Sleep 4000000000,
          Dial ''ws://r/ws/t'']"
  using C5_connect_retry_exhaustion [of "NewSender ''ws://r'' ''t'' []
          \<lparr>ChunkSize = 0, Timeout = 0, Retries = 0, Debug = False\<rparr>"
          "\<lambda>i. Inl (''refused'', i) :: (string \<times> nat) + unit" "\<lambda>i. (''refused'', i)"]
  by (simp add: NewSender_def Let_def Second_def)


subsection \<open>Relay\<close>

lemma cap_inv_set_pc [simp]: "cap_inv (set_pc rm c tok p) = cap_inv rm"
  by (simp add: cap_inv_def set_pc_def)

lemma length_remove1_le: "length (remove1 c xs) \<le> length xs"
  by (simp add: length_remove1)

lemma cap_inv_handler_step: "cap_inv rm \<Longrightarrow> cap_inv (handleWebSocket rm c tok p)"
  by (cases p)
     (auto simp: cap_inv_def set_pc_def AddClient_def RemoveClient_def DeleteRoom_def
        simp del: length_remove1 intro: order_trans [OF length_remove1_le] split: if_splits)

lemma cap_inv_cleanup_tick: "cap_inv (cleanup_tick rm now) = cap_inv rm"
  by (simp add: cap_inv_def cleanup_tick_def split: prod.splits)

lemma cap_inv_step: "cap_inv rm \<Longrightarrow> cap_inv (step rm ev)"
proof (cases ev)
  case (Accept c tok now)
  assume "cap_inv rm"
  then show ?thesis using Accept
    by (auto simp: cap_inv_def set_pc_def GetOrCreateRoom_def split: option.splits)
next
  case (Step c)
  assume "cap_inv rm"
  then show ?thesis using Step by (auto split: option.splits intro: cap_inv_handler_step)
next
  case (ReadFrame c b m)
  assume "cap_inv rm"
  then show ?thesis using ReadFrame
    by (auto simp: cap_inv_def set_pc_def split: option.splits handler_pc.splits)
next
  case (ReadError c)
  assume "cap_inv rm"
  then show ?thesis using ReadError
    by (auto simp: cap_inv_def set_pc_def split: option.splits handler_pc.splits)
next
  case (Tick now)
  assume "cap_inv rm"
  then show ?thesis using Tick by (simp add: cap_inv_cleanup_tick)
qed

lemma cap_inv_run: "cap_inv rm \<Longrightarrow> cap_inv (run rm evs)"
  unfolding run_def by (induction evs arbitrary: rm) (simp_all add: cap_inv_step)

lemma cap_inv_init: "cap_inv NewRoomManager"
  by (simp add: cap_inv_def NewRoomManager_def)

text \<open>
  C3 (the code departs from the claim). One connection joins the room of token \<^verbatim>\<open>t\<close> and
  disconnects. \<^verbatim>\<open>room.RemoveClient(conn)\<close> is deferred, so it runs after the emptiness check of the
  function body: the check still sees the leaving connection, \<^verbatim>\<open>DeleteRoom\<close> is skipped, and once
  the handler has finished the table still maps \<^verbatim>\<open>t\<close> to the now empty room.
\<close>

theorem C3_room_survives_last_leave:
  "handlers (run NewRoomManager single_visit) 1 = Some (''t'', Finished)
   \<and> clients (heap (run NewRoomManager single_visit) 0) = []
   \<and> rooms (run NewRoomManager single_visit) = [(''t'', 0)]
   \<and> step (run NewRoomManager single_visit) (Step 1) = run NewRoomManager single_visit"
  by (simp add: single_visit_def run_def NewRoomManager_def GetOrCreateRoom_def set_pc_def
        AddClient_def RemoveClient_def)

lemma pc_ok_frame [simp]:
  "pc_ok (rm\<lparr>handlers := hs\<rparr>) c p = pc_ok rm c p"
  "pc_ok (rm\<lparr>closed := cl\<rparr>) c p = pc_ok rm c p"
  "pc_ok (rm\<lparr>written := w\<rparr>) c p = pc_ok rm c p"
  "pc_ok (rm\<lparr>rooms := rs\<rparr>) c p = pc_ok rm c p"
  by (cases p; simp)+

lemma pc_ok_alloc:
  "pc_ok rm c p \<Longrightarrow>
   pc_ok (rm\<lparr>heap := (heap rm)(next_addr rm := r), next_addr := Suc (next_addr rm)\<rparr>) c p"
  by (cases p) auto

lemma pc_ok_add:
  "pc_ok rm c p \<Longrightarrow>
   pc_ok (rm\<lparr>heap := (heap rm)(a := (heap rm a)\<lparr>clients := clients (heap rm a) @ [c']\<rparr>)\<rparr>) c p"
  by (cases p) auto

lemma pc_ok_remove:
  "pc_ok rm c p \<Longrightarrow> c \<noteq> c' \<Longrightarrow>
   pc_ok (rm\<lparr>heap := (heap rm)(a := RemoveClient (heap rm a) c')\<rparr>) c p"
  by (cases p) (auto simp: RemoveClient_def)

lemma member_inv_set_pc:
  "member_inv rm \<Longrightarrow> pc_ok rm c p \<Longrightarrow> member_inv (set_pc rm c tok p)"
  by (simp add: member_inv_def set_pc_def)

lemma member_inv_handler_step:
  assumes inv: "member_inv rm" and h: "handlers rm c = Some (tok, p)"
  shows "member_inv (handleWebSocket rm c tok p)"
proof -
  have ok: "pc_ok rm c p" using inv h unfolding member_inv_def by blast
  show ?thesis
  proof (cases p)
    case (AtAddClient a)
    show ?thesis
    proof (cases "length (clients (heap rm a)) \<ge> 2")
      case True
      have "member_inv (rm\<lparr>written := written rm @ [(c, CloseMessage ClosePolicyViolation ''room full'')],
                     closed := closed rm @ [c]\<rparr>)"
        using inv by (simp add: member_inv_def)
      then show ?thesis using True AtAddClient
        by (simp add: AddClient_def member_inv_set_pc)
    next
      case False
      let ?rm = "rm\<lparr>heap := (heap rm)(a := (heap rm a)\<lparr>clients := clients (heap rm a) @ [c]\<rparr>)\<rparr>"
      have "member_inv ?rm"
        unfolding member_inv_def
      proof (intro allI impI)
        fix c' tok' p'
        assume "handlers ?rm c' = Some (tok', p')"
        then have "pc_ok rm c' p'" using inv unfolding member_inv_def by simp
        then show "pc_ok ?rm c' p'" by (rule pc_ok_add)
      qed
      moreover have "pc_ok ?rm c (Reading a)" using ok AtAddClient by simp
      ultimately show ?thesis using False AtAddClient
        by (simp add: AddClient_def member_inv_set_pc)
    qed
  next
    case (Reading a)
    then show ?thesis using inv by simp
  next
    case (AtEmptyCheck a)
    then have "c \<in> set (clients (heap rm a))" and "a < next_addr rm"
      using ok by simp_all
    then have "length (clients (heap rm a)) \<noteq> 0" by auto
    then show ?thesis using inv ok AtEmptyCheck
      by (simp add: member_inv_set_pc)
  next
    case (AtDeleteRoom a)
    then show ?thesis using ok by simp
  next
    case (AtRemoveClient a)
    let ?rm = "rm\<lparr>heap := (heap rm)(a := RemoveClient (heap rm a) c), closed := closed rm @ [c]\<rparr>"
    have "handleWebSocket rm c tok p = set_pc ?rm c tok Finished"
      using AtRemoveClient by simp
    moreover have "member_inv (set_pc ?rm c tok Finished)"
      unfolding member_inv_def
    proof (intro allI impI)
      fix c' tok' p'
      assume a: "handlers (set_pc ?rm c tok Finished) c' = Some (tok', p')"
      show "pc_ok (set_pc ?rm c tok Finished) c' p'"
      proof (cases "c' = c")
        case True
        then show ?thesis using a by (simp add: set_pc_def)
      next
        case False
        then have "pc_ok rm c' p'" using a inv unfolding member_inv_def by (simp add: set_pc_def)
        then have "pc_ok (rm\<lparr>heap := (heap rm)(a := RemoveClient (heap rm a) c)\<rparr>) c' p'"
          using False by (rule pc_ok_remove)
        then show ?thesis by (simp add: set_pc_def)
      qed
    qed
    ultimately show ?thesis by simp
  next
    case Finished
    then show ?thesis using inv by simp
  qed
qed

lemma member_inv_GetOrCreateRoom:
  assumes inv: "member_inv rm" and g: "GetOrCreateRoom rm tok now = (a, rm')"
    and wf: "\<forall>t b. (t, b) \<in> set (rooms rm) \<longrightarrow> b < next_addr rm"
  shows "member_inv rm' \<and> a < next_addr rm'"
proof (cases "map_of (rooms rm) tok")
  case None
  then have rm': "rm' = rm\<lparr>heap := (heap rm)(next_addr rm := \<lparr>token = tok, clients = [], createdAt = now\<rparr>),
              next_addr := Suc (next_addr rm), rooms := rooms rm @ [(tok, next_addr rm)]\<rparr>"
    and a: "a = next_addr rm"
    using g by (auto simp: GetOrCreateRoom_def)
  have "member_inv rm'"
    unfolding member_inv_def
  proof (intro allI impI)
    fix c' tok' p'
    assume "handlers rm' c' = Some (tok', p')"
    then have "pc_ok rm c' p'" using inv unfolding member_inv_def rm' by simp
    then have "pc_ok (rm\<lparr>heap := (heap rm)(next_addr rm := \<lparr>token = tok, clients = [], createdAt = now\<rparr>),
              next_addr := Suc (next_addr rm)\<rparr>) c' p'"
      by (rule pc_ok_alloc)
    then show "pc_ok rm' c' p'" unfolding rm' by simp
  qed
  then show ?thesis using a rm' by simp
next
  case (Some b)
  then have "rm' = rm" and "a = b" using g by (simp_all add: GetOrCreateRoom_def)
  moreover have "(tok, b) \<in> set (rooms rm)" using Some by (rule map_of_SomeD)
  ultimately show ?thesis using inv wf by blast
qed

lemma cleanup_rooms_keep:
  "fst (cleanup_rooms h now rs) = filter (\<lambda>(t, a). \<not> now - createdAt (h a) > 10 * Minute) rs"
  by (induction h now rs rule: cleanup_rooms.induct) (simp_all add: Let_def split_beta)

lemma cleanup_rooms_closed:
  "snd (cleanup_rooms h now rs) =
     concat (map (\<lambda>(t, a). clients (h a)) (filter (\<lambda>(t, a). now - createdAt (h a) > 10 * Minute) rs))"
  by (induction h now rs rule: cleanup_rooms.induct) (simp_all add: Let_def split_beta)

lemma cleanup_tick_eq:
  "cleanup_tick rm now =
     rm\<lparr>rooms := filter (\<lambda>(t, a). \<not> now - createdAt (heap rm a) > 10 * Minute) (rooms rm),
        closed := closed rm @ concat (map (\<lambda>(t, a). clients (heap rm a))
                    (filter (\<lambda>(t, a). now - createdAt (heap rm a) > 10 * Minute) (rooms rm)))\<rparr>"
  using cleanup_rooms_keep [of "heap rm" now "rooms rm"]
        cleanup_rooms_closed [of "heap rm" now "rooms rm"]
  by (simp add: cleanup_tick_def split_beta)

lemma table_wf_handler_step: "table_wf rm \<Longrightarrow> table_wf (handleWebSocket rm c tok p)"
  by (cases p) (auto simp: table_wf_def set_pc_def AddClient_def DeleteRoom_def)

lemma table_wf_step: "table_wf rm \<Longrightarrow> table_wf (step rm ev)"
proof (cases ev)
  case (Accept c tok now)
  assume "table_wf rm"
  then show ?thesis using Accept
    by (auto simp: table_wf_def set_pc_def GetOrCreateRoom_def less_Suc_eq split: option.splits)
next
  case (Step c)
  assume "table_wf rm"
  then show ?thesis using Step by (auto split: option.splits intro: table_wf_handler_step)
next
  case (ReadFrame c b m)
  assume "table_wf rm"
  then show ?thesis using ReadFrame
    by (auto simp: table_wf_def set_pc_def split: option.splits handler_pc.splits)
next
  case (ReadError c)
  assume "table_wf rm"
  then show ?thesis using ReadError
    by (auto simp: table_wf_def set_pc_def split: option.splits handler_pc.splits)
next
  case (Tick now)
  assume "table_wf rm"
  then show ?thesis using Tick by (auto simp: table_wf_def cleanup_tick_eq)
qed

lemma member_inv_frame:
  "member_inv (rm\<lparr>written := w\<rparr>) = member_inv rm"
  "member_inv (rm\<lparr>rooms := rs, closed := cl\<rparr>) = member_inv rm"
  by (simp_all add: member_inv_def)

lemma member_inv_step:
  assumes inv: "member_inv rm" and wf: "table_wf rm"
  shows "member_inv (step rm ev)"
proof (cases ev)
  case (Accept c tok now)
  show ?thesis
  proof (cases "tok = [] \<or> handlers rm c \<noteq> None")
    case True
    then show ?thesis using Accept inv by simp
  next
    case False
    obtain a rm' where g: "GetOrCreateRoom rm tok now = (a, rm')" by (cases "GetOrCreateRoom rm tok now")
    from member_inv_GetOrCreateRoom [OF inv g] wf
    have "member_inv rm'" and "a < next_addr rm'" by (simp_all add: table_wf_def)
    then have "member_inv (set_pc rm' c tok (AtAddClient a))"
      by (simp add: member_inv_set_pc)
    then show ?thesis using Accept False g by simp
  qed
next
  case (Step c)
  then show ?thesis using inv by (auto split: option.splits intro: member_inv_handler_step)
next
  case (ReadFrame c b m)
  show ?thesis
  proof (cases "handlers rm c")
    case None
    then show ?thesis using ReadFrame inv by simp
  next
    case (Some tp)
    obtain tok p where tp: "tp = (tok, p)" by (cases tp)
    have ok: "pc_ok rm c p" using inv Some tp unfolding member_inv_def by blast
    show ?thesis
    proof (cases p)
      case (Reading a)
      then have "pc_ok rm c (AtEmptyCheck a)" using ok by simp
      then have "member_inv (set_pc rm c tok (AtEmptyCheck a))"
        using inv by (rule member_inv_set_pc [rotated])
      then show ?thesis using ReadFrame Some tp Reading inv
        by (simp add: member_inv_frame)
    qed (use ReadFrame Some tp inv in simp_all)
  qed
next
  case (ReadError c)
  show ?thesis
  proof (cases "handlers rm c")
    case None
    then show ?thesis using ReadError inv by simp
  next
    case (Some tp)
    obtain tok p where tp: "tp = (tok, p)" by (cases tp)
    have ok: "pc_ok rm c p" using inv Some tp unfolding member_inv_def by blast
    show ?thesis
    proof (cases p)
      case (Reading a)
      then have "pc_ok rm c (AtEmptyCheck a)" using ok by simp
      then have "member_inv (set_pc rm c tok (AtEmptyCheck a))"
        using inv by (rule member_inv_set_pc [rotated])
      then show ?thesis using ReadError Some tp Reading by simp
    qed (use ReadError Some tp inv in simp_all)
  qed
next
  case (Tick now)
  then show ?thesis using inv by (simp add: cleanup_tick_eq member_inv_frame)
qed

lemma relay_inv_run: "member_inv rm \<Longrightarrow> table_wf rm \<Longrightarrow> member_inv (run rm evs) \<and> table_wf (run rm evs)"
  unfolding run_def by (induction evs arbitrary: rm) (simp_all add: member_inv_step table_wf_step)

text \<open>
  The same holds in general: no handler ever reaches the call of \<^verbatim>\<open>DeleteRoom\<close>.
\<close>

lemma DeleteRoom_never_reached:
  "handlers (run NewRoomManager evs) c \<noteq> Some (tok, AtDeleteRoom a)"
proof
  assume h: "handlers (run NewRoomManager evs) c = Some (tok, AtDeleteRoom a)"
  have "member_inv NewRoomManager" and "table_wf NewRoomManager"
    by (simp_all add: member_inv_def table_wf_def NewRoomManager_def)
  then have "member_inv (run NewRoomManager evs)" using relay_inv_run by blast
  with h have "pc_ok (run NewRoomManager evs) c (AtDeleteRoom a)"
    unfolding member_inv_def by blast
  then show False by simp
qed

lemma table_ok_frame [simp]:
  "table_ok (rm\<lparr>handlers := hs\<rparr>) = table_ok rm"
  "table_ok (rm\<lparr>closed := cl\<rparr>) = table_ok rm"
  "table_ok (rm\<lparr>written := w\<rparr>) = table_ok rm"
  by (simp_all add: table_ok_def)

lemma table_ok_set_pc [simp]: "table_ok (set_pc rm c tok p) = table_ok rm"
  by (simp add: set_pc_def)

lemma table_ok_filter:
  "table_ok rm \<Longrightarrow> table_ok (rm\<lparr>rooms := filter P (rooms rm)\<rparr>)"
  by (auto simp: table_ok_def distinct_map_filter)

lemma table_ok_clients:
  "table_ok rm \<Longrightarrow> table_ok (rm\<lparr>heap := (heap rm)(a := (heap rm a)\<lparr>clients := cl\<rparr>)\<rparr>)"
  by (auto simp: table_ok_def)

lemma table_ok_handleWebSocket: "table_ok rm \<Longrightarrow> table_ok (handleWebSocket rm c tok p)"
proof (cases p)
  case (AtAddClient a)
  assume "table_ok rm"
  then show ?thesis using AtAddClient table_ok_clients [of rm a "clients (heap rm a) @ [c]"]
    by (auto simp: AddClient_def)
next
  case (AtDeleteRoom a)
  assume "table_ok rm"
  then show ?thesis using AtDeleteRoom table_ok_filter [of rm "\<lambda>(t, a). t \<noteq> tok"]
    by (simp add: DeleteRoom_def)
next
  case (AtRemoveClient a)
  assume "table_ok rm"
  then show ?thesis using AtRemoveClient table_ok_clients [of rm a "remove1 c (clients (heap rm a))"]
    by (simp add: RemoveClient_def)
qed simp_all

lemma table_ok_GetOrCreateRoom:
  assumes "table_ok rm" and "table_wf rm"
  shows "table_ok (snd (GetOrCreateRoom rm tok now))"
proof (cases "map_of (rooms rm) tok")
  case None
  then have nt: "tok \<notin> fst ` set (rooms rm)" by (simp add: map_of_eq_None_iff)
  have ne: "\<forall>t a. (t, a) \<in> set (rooms rm) \<longrightarrow> a \<noteq> next_addr rm"
    using assms(2) unfolding table_wf_def by (metis less_irrefl)
  have na: "next_addr rm \<notin> snd ` set (rooms rm)"
  proof
    assume "next_addr rm \<in> snd ` set (rooms rm)"
    then obtain t where "(t, next_addr rm) \<in> set (rooms rm)" by force
    then show False using ne by blast
  qed
  show ?thesis
    using None assms(1) nt na ne by (auto simp: GetOrCreateRoom_def table_ok_def)
next
  case (Some a)
  then show ?thesis using assms(1) by (simp add: GetOrCreateRoom_def)
qed

lemma table_ok_step: "table_ok rm \<Longrightarrow> table_wf rm \<Longrightarrow> table_ok (step rm ev)"
proof (cases ev)
  case (Accept c tok now)
  assume "table_ok rm" "table_wf rm"
  then show ?thesis using Accept table_ok_GetOrCreateRoom [of rm tok now]
    by (auto split: prod.splits)
next
  case (Step c)
  assume "table_ok rm"
  then show ?thesis using Step by (auto split: option.splits intro: table_ok_handleWebSocket)
next
  case (ReadFrame c b m)
  assume "table_ok rm"
  then show ?thesis using ReadFrame by (auto split: option.splits handler_pc.splits)
next
  case (ReadError c)
  assume "table_ok rm"
  then show ?thesis using ReadError by (auto split: option.splits handler_pc.splits)
next
  case (Tick now)
  assume "table_ok rm"
  then show ?thesis using Tick
      table_ok_filter [of rm "\<lambda>(t, a). \<not> now - createdAt (heap rm a) > 10 * Minute"]
    by (simp add: cleanup_tick_eq)
qed

lemma relay_inv_step: "relay_inv rm \<Longrightarrow> relay_inv (step rm ev)"
  by (simp add: relay_inv_def member_inv_step table_wf_step table_ok_step)

lemma relay_inv_run_full: "relay_inv rm \<Longrightarrow> relay_inv (run rm evs)"
  unfolding run_def by (induction evs arbitrary: rm) (simp_all add: relay_inv_step)

lemma relay_inv_init: "relay_inv NewRoomManager"
  by (simp add: relay_inv_def member_inv_def table_wf_def table_ok_def NewRoomManager_def)

lemma relay_inv_reachable: "relay_inv (run NewRoomManager evs)"
  by (rule relay_inv_run_full [OF relay_inv_init])

lemma run_append: "run rm (xs @ ys) = run (run rm xs) ys"
  by (simp add: run_def)

lemma run_Cons: "run rm (ev # evs) = run (step rm ev) evs"
  by (simp add: run_def)

lemma one_room_per_token:
  assumes "table_ok rm" and "(t, a) \<in> set (rooms rm)" and "(t', a') \<in> set (rooms rm)"
  shows "(t = t') = (a = a')"
proof
  assume "t = t'"
  then show "a = a'"
    using assms by (metis table_ok_def eq_key_imp_eq_value)
next
  assume "a = a'"
  then show "t = t'" using assms by (auto simp: table_ok_def)
qed

lemma accept_step:
  assumes "handlers rm c = Some (tok, AtAddClient a)" and "length (clients (heap rm a)) < 2"
  shows "heap (step rm (Step c)) = (heap rm)(a := (heap rm a)\<lparr>clients := clients (heap rm a) @ [c]\<rparr>)"
    and "handlers (step rm (Step c)) c = Some (tok, Reading a)"
    and "written (step rm (Step c)) = written rm"
    and "closed (step rm (Step c)) = closed rm"
    and "rooms (step rm (Step c)) = rooms rm"
  using assms by (simp_all add: AddClient_def set_pc_def)

lemma refuse_step:
  assumes "handlers rm c = Some (tok, AtAddClient a)" and "2 \<le> length (clients (heap rm a))"
  shows "heap (step rm (Step c)) = heap rm"
    and "handlers (step rm (Step c)) c = Some (tok, Finished)"
    and "written (step rm (Step c)) =
           written rm @ [(c, CloseMessage ClosePolicyViolation ''room full'')]"
    and "closed (step rm (Step c)) = closed rm @ [c]"
    and "rooms (step rm (Step c)) = rooms rm"
  using assms by (simp_all add: AddClient_def set_pc_def)

lemma join_step:
  assumes "tok \<noteq> []" and "handlers rm c = None"
  shows "handlers (step rm (Accept c tok now)) c
           = Some (tok, AtAddClient (fst (GetOrCreateRoom rm tok now)))"
    and "map_of (rooms (step rm (Accept c tok now))) tok = Some (fst (GetOrCreateRoom rm tok now))"
    and "map_of (rooms rm) tok = None \<Longrightarrow>
           fst (GetOrCreateRoom rm tok now) = next_addr rm
         \<and> heap (step rm (Accept c tok now)) (next_addr rm)
             = \<lparr>token = tok, clients = [], createdAt = now\<rparr>
         \<and> rooms (step rm (Accept c tok now)) = rooms rm @ [(tok, next_addr rm)]"
    and "map_of (rooms rm) tok = Some b \<Longrightarrow>
           fst (GetOrCreateRoom rm tok now) = b
         \<and> heap (step rm (Accept c tok now)) = heap rm
         \<and> rooms (step rm (Accept c tok now)) = rooms rm"
  using assms
  by (auto simp: GetOrCreateRoom_def set_pc_def map_add_def split: option.splits)

lemma join_in_turn_run:
  assumes "tok \<noteq> []" and "map_of (rooms rm) tok = None"
    and "handlers rm c1 = None" "handlers rm c2 = None" "handlers rm c3 = None"
    and "c1 \<noteq> c2" "c1 \<noteq> c3" "c2 \<noteq> c3"
  shows "clients (heap (run rm (join_in_turn tok c1 c2 c3 now)) (next_addr rm)) = [c1, c2]"
    and "handlers (run rm (join_in_turn tok c1 c2 c3 now)) c1 = Some (tok, Reading (next_addr rm))"
    and "handlers (run rm (join_in_turn tok c1 c2 c3 now)) c2 = Some (tok, Reading (next_addr rm))"
    and "handlers (run rm (join_in_turn tok c1 c2 c3 now)) c3 = Some (tok, Finished)"
    and "written (run rm (join_in_turn tok c1 c2 c3 now))
           = written rm @ [(c3, CloseMessage ClosePolicyViolation ''room full'')]"
    and "closed (run rm (join_in_turn tok c1 c2 c3 now)) = closed rm @ [c3]"
    and "map_of (rooms (run rm (join_in_turn tok c1 c2 c3 now))) tok = Some (next_addr rm)"
  using assms
  by (simp_all add: join_in_turn_def run_def GetOrCreateRoom_def set_pc_def AddClient_def
        map_add_def)

lemma join_crossed_run:
  assumes "tok \<noteq> []" and "map_of (rooms rm) tok = None"
    and "handlers rm c1 = None" "handlers rm c2 = None" "handlers rm c3 = None"
    and "c1 \<noteq> c2" "c1 \<noteq> c3" "c2 \<noteq> c3"
  shows "clients (heap (run rm (join_crossed tok c1 c2 c3 now)) (next_addr rm)) = [c3, c1]"
    and "handlers (run rm (join_crossed tok c1 c2 c3 now)) c2 = Some (tok, Finished)"
    and "written (run rm (join_crossed tok c1 c2 c3 now))
           = written rm @ [(c2, CloseMessage ClosePolicyViolation ''room full'')]"
    and "closed (run rm (join_crossed tok c1 c2 c3 now)) = closed rm @ [c2]"
  using assms
  by (simp_all add: join_crossed_def run_def GetOrCreateRoom_def set_pc_def AddClient_def
        map_add_def)

lemma two_tokens_state:
  "rooms two_tokens = [(''t'', 0)]"
  "next_addr two_tokens = 1"
  "clients (heap two_tokens 0) = [1, 2]"
  "handlers two_tokens 4 = None" "handlers two_tokens 5 = None" "handlers two_tokens 6 = None"
  "closed two_tokens = [3]"
  "written two_tokens = [(3, CloseMessage ClosePolicyViolation ''room full'')]"
  by (simp_all add: two_tokens_def join_in_turn_def run_def NewRoomManager_def
        GetOrCreateRoom_def set_pc_def AddClient_def)

lemma handler_room_allocated:
  assumes "handlers (run NewRoomManager evs) c = Some (tok, AtAddClient a)"
  shows "a < next_addr (run NewRoomManager evs)"
proof -
  have "member_inv (run NewRoomManager evs)"
    using relay_inv_reachable [of evs] by (simp add: relay_inv_def)
  then have "pc_ok (run NewRoomManager evs) c (AtAddClient a)"
    using assms unfolding member_inv_def by blast
  then show ?thesis by simp
qed

lemma table_reachable:
  assumes "(t, a) \<in> set (rooms (run NewRoomManager evs))"
    and "(t', a') \<in> set (rooms (run NewRoomManager evs))"
  shows "(t = t') = (a = a')" and "token (heap (run NewRoomManager evs) a) = t"
proof -
  have ok: "table_ok (run NewRoomManager evs)"
    using relay_inv_reachable [of evs] by (simp add: relay_inv_def)
  show "(t = t') = (a = a')" using one_room_per_token [OF ok assms] .
  show "token (heap (run NewRoomManager evs) a) = t"
    using ok assms(1) unfolding table_ok_def by blast
qed

lemma join_step_new:
  assumes "tok \<noteq> []" and "handlers rm c = None" and "map_of (rooms rm) tok = None"
  shows "fst (GetOrCreateRoom rm tok now) = next_addr rm"
    and "heap (step rm (Accept c tok now))
           = (heap rm)(next_addr rm := \<lparr>token = tok, clients = [], createdAt = now\<rparr>)"
    and "rooms (step rm (Accept c tok now)) = rooms rm @ [(tok, next_addr rm)]"
  using assms by (simp_all add: GetOrCreateRoom_def set_pc_def)

text \<open>
  C2. Along every interleaving of requests, handler steps, frames, read errors and sweeps,
  starting from the empty relay: no room ever holds more than two connections; the table has
  one room per token and one token per room, and the room carries its token; a handler about
  to call \<^verbatim>\<open>AddClient\<close> holds an allocated room. A request for a token makes the handler hold
  the room that \<^verbatim>\<open>GetOrCreateRoom\<close> returns, which is then the token's room in the table: a new,
  empty room when the table has none for the token, the room of the table unchanged
  otherwise. The handler's \<^verbatim>\<open>AddClient\<close> step appends the connection whenever the room holds
  fewer than two, and otherwise leaves the room untouched, writes the close frame with the
  policy-violation code and the reason \<^verbatim>\<open>room full\<close>, and closes the connection in the same
  step. Hence, from any state, for a token without a room and three new connections: the
  first two to call \<^verbatim>\<open>AddClient\<close> are accepted into the token's room and the third is
  refused, in the order of arrival and in a crossed order.
\<close>

theorem C2_room_capacity:
  "(\<forall>evs a. length (clients (heap (run NewRoomManager evs) a)) \<le> 2)
   \<and> (\<forall>evs t a t' a'.
         (t, a) \<in> set (rooms (run NewRoomManager evs))
         \<and> (t', a') \<in> set (rooms (run NewRoomManager evs)) \<longrightarrow>
           (t = t') = (a = a') \<and> token (heap (run NewRoomManager evs) a) = t)
   \<and> (\<forall>evs c tok a. handlers (run NewRoomManager evs) c = Some (tok, AtAddClient a) \<longrightarrow>
         a < next_addr (run NewRoomManager evs))
   \<and> (\<forall>rm c tok now. tok \<noteq> [] \<and> handlers rm c = None \<longrightarrow>
         handlers (step rm (Accept c tok now)) c
           = Some (tok, AtAddClient (fst (GetOrCreateRoom rm tok now)))
       \<and> map_of (rooms (step rm (Accept c tok now))) tok
           = Some (fst (GetOrCreateRoom rm tok now))
       \<and> (map_of (rooms rm) tok = None \<longrightarrow>
             fst (GetOrCreateRoom rm tok now) = next_addr rm
           \<and> heap (step rm (Accept c tok now))
               = (heap rm)(next_addr rm := \<lparr>token = tok, clients = [], createdAt = now\<rparr>)
           \<and> rooms (step rm (Accept c tok now)) = rooms rm @ [(tok, next_addr rm)])
       \<and> (\<forall>b. map_of (rooms rm) tok = Some b \<longrightarrow>
             fst (GetOrCreateRoom rm tok now) = b
           \<and> heap (step rm (Accept c tok now)) = heap rm
           \<and> rooms (step rm (Accept c tok now)) = rooms rm))
   \<and> (\<forall>rm c tok a. handlers rm c = Some (tok, AtAddClient a)
                    \<and> length (clients (heap rm a)) < 2 \<longrightarrow>
         heap (step rm (Step c))
           = (heap rm)(a := (heap rm a)\<lparr>clients := clients (heap rm a) @ [c]\<rparr>)
       \<and> handlers (step rm (Step c)) c = Some (tok, Reading a)
       \<and> written (step rm (Step c)) = written rm
       \<and> closed (step rm (Step c)) = closed rm)
   \<and> (\<forall>rm c tok a. handlers rm c = Some (tok, AtAddClient a)
                    \<and> 2 \<le> length (clients (heap rm a)) \<longrightarrow>
         heap (step rm (Step c)) = heap rm
       \<and> handlers (step rm (Step c)) c = Some (tok, Finished)
       \<and> written (step rm (Step c))
           = written rm @ [(c, CloseMessage ClosePolicyViolation ''room full'')]
       \<and> closed (step rm (Step c)) = closed rm @ [c])
   \<and> (\<forall>rm tok c1 c2 c3 now.
         tok \<noteq> [] \<and> map_of (rooms rm) tok = None
         \<and> handlers rm c1 = None \<and> handlers rm c2 = None \<and> handlers rm c3 = None
         \<and> c1 \<noteq> c2 \<and> c1 \<noteq> c3 \<and> c2 \<noteq> c3 \<longrightarrow>
           map_of (rooms (run rm (join_in_turn tok c1 c2 c3 now))) tok = Some (next_addr rm)
         \<and> clients (heap (run rm (join_in_turn tok c1 c2 c3 now)) (next_addr rm)) = [c1, c2]
         \<and> handlers (run rm (join_in_turn tok c1 c2 c3 now)) c3 = Some (tok, Finished)
         \<and> written (run rm (join_in_turn tok c1 c2 c3 now))
             = written rm @ [(c3, CloseMessage ClosePolicyViolation ''room full'')]
         \<and> closed (run rm (join_in_turn tok c1 c2 c3 now)) = closed rm @ [c3]
         \<and> clients (heap (run rm (join_crossed tok c1 c2 c3 now)) (next_addr rm)) = [c3, c1]
         \<and> handlers (run rm (join_crossed tok c1 c2 c3 now)) c2 = Some (tok, Finished)
         \<and> written (run rm (join_crossed tok c1 c2 c3 now))
             = written rm @ [(c2, CloseMessage ClosePolicyViolation ''room full'')]
         \<and> closed (run rm (join_crossed tok c1 c2 c3 now)) = closed rm @ [c2])"
proof (intro conjI allI impI)
  fix evs a
  show "length (clients (heap (run NewRoomManager evs) a)) \<le> 2"
    using cap_inv_run [OF cap_inv_init, of evs] by (simp add: cap_inv_def)
next
  fix evs t a t' a'
  assume h: "(t, a) \<in> set (rooms (run NewRoomManager evs))
         \<and> (t', a') \<in> set (rooms (run NewRoomManager evs))"
  show "(t = t') = (a = a')" using h table_reachable(1) by blast
  show "token (heap (run NewRoomManager evs) a) = t" using h table_reachable(2) by blast
next
  fix evs c tok a
  assume "handlers (run NewRoomManager evs) c = Some (tok, AtAddClient a)"
  then show "a < next_addr (run NewRoomManager evs)" by (rule handler_room_allocated)
next
  fix rm :: relay and c and tok :: string and now
  assume h: "tok \<noteq> [] \<and> handlers rm c = None"
  then have t: "tok \<noteq> []" and n: "handlers rm c = None" by simp_all
  show "handlers (step rm (Accept c tok now)) c
           = Some (tok, AtAddClient (fst (GetOrCreateRoom rm tok now)))"
    by (rule join_step(1) [OF t n])
  show "map_of (rooms (step rm (Accept c tok now))) tok
           = Some (fst (GetOrCreateRoom rm tok now))"
    by (rule join_step(2) [OF t n])
  {
    assume m: "map_of (rooms rm) tok = None"
    show "fst (GetOrCreateRoom rm tok now) = next_addr rm"
      by (rule join_step_new(1) [OF t n m])
    show "heap (step rm (Accept c tok now))
               = (heap rm)(next_addr rm := \<lparr>token = tok, clients = [], createdAt = now\<rparr>)"
      by (rule join_step_new(2) [OF t n m])
    show "rooms (step rm (Accept c tok now)) = rooms rm @ [(tok, next_addr rm)]"
      by (rule join_step_new(3) [OF t n m])
  }
  {
    fix b
    assume m: "map_of (rooms rm) tok = Some b"
    show "fst (GetOrCreateRoom rm tok now) = b"
      using join_step(4) [OF t n m] by simp
    show "heap (step rm (Accept c tok now)) = heap rm"
      using join_step(4) [OF t n m] by simp
    show "rooms (step rm (Accept c tok now)) = rooms rm"
      using join_step(4) [OF t n m] by simp
  }
next
  fix rm :: relay and c tok a
  assume h: "handlers rm c = Some (tok, AtAddClient a) \<and> length (clients (heap rm a)) < 2"
  then have p: "handlers rm c = Some (tok, AtAddClient a)"
    and l: "length (clients (heap rm a)) < 2" by simp_all
  show "heap (step rm (Step c))
           = (heap rm)(a := (heap rm a)\<lparr>clients := clients (heap rm a) @ [c]\<rparr>)"
    by (rule accept_step(1) [OF p l])
  show "handlers (step rm (Step c)) c = Some (tok, Reading a)"
    by (rule accept_step(2) [OF p l])
  show "written (step rm (Step c)) = written rm"
    by (rule accept_step(3) [OF p l])
  show "closed (step rm (Step c)) = closed rm"
    by (rule accept_step(4) [OF p l])
next
  fix rm :: relay and c tok a
  assume h: "handlers rm c = Some (tok, AtAddClient a) \<and> 2 \<le> length (clients (heap rm a))"
  then have p: "handlers rm c = Some (tok, AtAddClient a)"
    and l: "2 \<le> length (clients (heap rm a))" by simp_all
  show "heap (step rm (Step c)) = heap rm"
    by (rule refuse_step(1) [OF p l])
  show "handlers (step rm (Step c)) c = Some (tok, Finished)"
    by (rule refuse_step(2) [OF p l])
  show "written (step rm (Step c))
           = written rm @ [(c, CloseMessage ClosePolicyViolation ''room full'')]"
    by (rule refuse_step(3) [OF p l])
  show "closed (step rm (Step c)) = closed rm @ [c]"
    by (rule refuse_step(4) [OF p l])
next
  fix rm :: relay and tok c1 c2 c3 now
  assume h: "tok \<noteq> [] \<and> map_of (rooms rm) tok = None
         \<and> handlers rm c1 = None \<and> handlers rm c2 = None \<and> handlers rm c3 = None
         \<and> c1 \<noteq> c2 \<and> c1 \<noteq> c3 \<and> c2 \<noteq> c3"
  then have a: "tok \<noteq> []" "map_of (rooms rm) tok = None"
    "handlers rm c1 = None" "handlers rm c2 = None" "handlers rm c3 = None"
    "c1 \<noteq> c2" "c1 \<noteq> c3" "c2 \<noteq> c3" by simp_all
  show "map_of (rooms (run rm (join_in_turn tok c1 c2 c3 now))) tok = Some (next_addr rm)"
    by (rule join_in_turn_run(7) [OF a])
  show "clients (heap (run rm (join_in_turn tok c1 c2 c3 now)) (next_addr rm)) = [c1, c2]"
    by (rule join_in_turn_run(1) [OF a])
  show "handlers (run rm (join_in_turn tok c1 c2 c3 now)) c3 = Some (tok, Finished)"
    by (rule join_in_turn_run(4) [OF a])
  show "written (run rm (join_in_turn tok c1 c2 c3 now))
             = written rm @ [(c3, CloseMessage ClosePolicyViolation ''room full'')]"
    by (rule join_in_turn_run(5) [OF a])
  show "closed (run rm (join_in_turn tok c1 c2 c3 now)) = closed rm @ [c3]"
    by (rule join_in_turn_run(6) [OF a])
  show "clients (heap (run rm (join_crossed tok c1 c2 c3 now)) (next_addr rm)) = [c3, c1]"
    by (rule join_crossed_run(1) [OF a])
  show "handlers (run rm (join_crossed tok c1 c2 c3 now)) c2 = Some (tok, Finished)"
    by (rule join_crossed_run(2) [OF a])
  show "written (run rm (join_crossed tok c1 c2 c3 now))
             = written rm @ [(c2, CloseMessage ClosePolicyViolation ''room full'')]"
    by (rule join_crossed_run(3) [OF a])
  show "closed (run rm (join_crossed tok c1 c2 c3 now)) = closed rm @ [c2]"
    by (rule join_crossed_run(4) [OF a])
qed

theorem C2_room_capacity_witness:
  "rooms two_tokens = [(''t'', 0)]
   \<and> clients (heap two_tokens 0) = [1, 2]
   \<and> written two_tokens = [(3, CloseMessage ClosePolicyViolation ''room full'')]
   \<and> closed two_tokens = [3]
   \<and> map_of (rooms (run two_tokens (join_in_turn ''u'' 4 5 6 9))) ''u'' = Some 1
   \<and> map_of (rooms (run two_tokens (join_in_turn ''u'' 4 5 6 9))) ''t'' = Some 0
   \<and> clients (heap (run two_tokens (join_in_turn ''u'' 4 5 6 9)) 1) = [4, 5]
   \<and> clients (heap (run two_tokens (join_in_turn ''u'' 4 5 6 9)) 0) = [1, 2]
   \<and> handlers (run two_tokens (join_in_turn ''u'' 4 5 6 9)) 6 = Some (''u'', Finished)
   \<and> written (run two_tokens (join_in_turn ''u'' 4 5 6 9))
       = [(3, CloseMessage ClosePolicyViolation ''room full''),
          (6, CloseMessage ClosePolicyViolation ''room full'')]
   \<and> closed (run two_tokens (join_in_turn ''u'' 4 5 6 9)) = [3, 6]
   \<and> clients (heap (run two_tokens (join_crossed ''u'' 4 5 6 9)) 1) = [6, 4]
   \<and> closed (run two_tokens (join_crossed ''u'' 4 5 6 9)) = [3, 5]"
proof -
  have pre: "''u'' \<noteq> [] \<and> map_of (rooms two_tokens) ''u'' = None
         \<and> handlers two_tokens 4 = None \<and> handlers two_tokens 5 = None
         \<and> handlers two_tokens 6 = None
         \<and> (4::nat) \<noteq> 5 \<and> (4::nat) \<noteq> 6 \<and> (5::nat) \<noteq> 6"
    by (simp add: two_tokens_state)
  note sc = C2_room_capacity [THEN conjunct2, THEN conjunct2, THEN conjunct2, THEN conjunct2,
      THEN conjunct2, THEN conjunct2, rule_format, OF pre, of 9]
  have old: "map_of (rooms (run two_tokens (join_in_turn ''u'' 4 5 6 9))) ''t'' = Some 0"
    "clients (heap (run two_tokens (join_in_turn ''u'' 4 5 6 9)) 0) = [1, 2]"
    by (simp_all add: two_tokens_def join_in_turn_def run_def NewRoomManager_def
          GetOrCreateRoom_def set_pc_def AddClient_def)
  show ?thesis
    using sc old by (simp add: two_tokens_state)
qed

text \<open>
  The bound is one of the room, not of the token. A sweep removes the room of a token from the
  table while a handler that has looked it up still holds it: the handler joins the removed
  room, the next requests for the token get a new room, and three connections of the one token
  are accepted and open at once, in two rooms of at most two.
\<close>

lemma room_replaced_after_sweep:
  "rooms (run NewRoomManager sweep_race) = [(''t'', 1)]
   \<and> clients (heap (run NewRoomManager sweep_race) 0) = [1, 2]
   \<and> clients (heap (run NewRoomManager sweep_race) 1) = [3, 4]
   \<and> closed (run NewRoomManager sweep_race) = [1]
   \<and> written (run NewRoomManager sweep_race) = []
   \<and> handlers (run NewRoomManager sweep_race) 2 = Some (''t'', Reading 0)
   \<and> handlers (run NewRoomManager sweep_race) 3 = Some (''t'', Reading 1)
   \<and> handlers (run NewRoomManager sweep_race) 4 = Some (''t'', Reading 1)"
  by (simp add: sweep_race_def run_def NewRoomManager_def GetOrCreateRoom_def set_pc_def
        AddClient_def cleanup_tick_def Minute_def Second_def)






















subsection \<open>ReceiveFile\<close>

lemma map_upd_remove: "(d(p \<mapsto> x))(p := None) = d(p := None)"
  by simp

lemma receiving_step:
  assumes "receiving destDir d st" and "\<not> is_metadata ev"
    and "recv_step D destDir elapsed st ev = (st', res)"
  shows "case res of
           None \<Rightarrow> receiving destDir d st' \<and> metadata st' = metadata st
                    \<and> (\<forall>evs. fileContent st' @ received_bytes evs
                          = fileContent st @ received_bytes (ev # evs))
         | Some r \<Rightarrow> exit_ok D destDir d st' r \<and> metadata st' = metadata st
                    \<and> (\<forall>p stats. r = Inr (p, stats) \<longrightarrow>
                          (\<forall>evs. fileContent st' = fileContent st @ received_bytes (ev # evs)))"
proof (cases ev)
  case (Frame msg ok)
  then have nm: "Type msg \<noteq> MsgTypeMetadata" using assms(2) by (simp add: is_metadata_def)
  show ?thesis
    using assms(1,3) Frame nm
    by (cases "Type msg")
       (auto simp: recv_message_def receiving_def exit_ok_def os_Remove_def file_Write_def
          split: if_splits)
qed (use assms in \<open>auto simp: remove_if_open_def receiving_def exit_ok_def os_Remove_def\<close>)

lemma receiving_loop:
  assumes "receiving destDir d st" and "\<forall>ev \<in> set evs. \<not> is_metadata ev"
    and "recv_loop D destDir elapsed st evs = (st', Some r)"
  shows "exit_ok D destDir d st' r \<and> metadata st' = metadata st
       \<and> (\<forall>p stats. r = Inr (p, stats) \<longrightarrow> fileContent st' = fileContent st @ received_bytes evs)"
  using assms
proof (induction evs arbitrary: st)
  case Nil
  then show ?case by simp
next
  case (Cons ev evs)
  obtain st1 res where s1: "recv_step D destDir elapsed st ev = (st1, res)"
    by (cases "recv_step D destDir elapsed st ev")
  have nm: "\<not> is_metadata ev" using Cons.prems(2) by simp
  note step = receiving_step [OF Cons.prems(1) nm s1]
  show ?case
  proof (cases res)
    case None
    then have r1: "receiving destDir d st1" and m1: "metadata st1 = metadata st"
      and c1: "\<And>evs. fileContent st1 @ received_bytes evs = fileContent st @ received_bytes (ev # evs)"
      using step by simp_all
    have l1: "recv_loop D destDir elapsed st1 evs = (st', Some r)"
      using Cons.prems(3) s1 None by simp
    have "\<forall>ev \<in> set evs. \<not> is_metadata ev" using Cons.prems(2) by simp
    from Cons.IH [OF r1 this l1] show ?thesis
      using m1 c1 by simp
  next
    case (Some r1)
    then have "st' = st1" and "r = r1" using Cons.prems(3) s1 by simp_all
    then show ?thesis using step Some by simp
  qed
qed

lemma init_loop:
  assumes "length (filter is_metadata evs) \<le> 1"
    and "recv_loop D destDir elapsed (recv_init d) evs = (st', Some r)"
  shows "exit_ok D destDir d st' r
       \<and> (\<forall>p stats. r = Inr (p, stats) \<and> p \<noteq> [] \<longrightarrow> fileContent st' = received_bytes evs)"
  using assms
proof (induction evs)
  case Nil
  then show ?case by simp
next
  case (Cons ev evs)
  show ?case
  proof (cases ev)
    case (Frame msg ok)
    show ?thesis
    proof (cases "Type msg")
      case MsgTypeReady
      then have "recv_loop D destDir elapsed (recv_init d) evs = (st', Some r)"
        using Cons.prems(2) Frame by (simp add: recv_message_def)
      moreover have "length (filter is_metadata evs) \<le> 1"
        using Cons.prems(1) by (simp split: if_splits)
      ultimately show ?thesis using Cons.IH Frame MsgTypeReady by simp
    next
      case MsgTypeMetadata
      then have rest: "\<forall>ev \<in> set evs. \<not> is_metadata ev"
        using Cons.prems(1) Frame by (simp add: is_metadata_def filter_empty_conv)
      show ?thesis
      proof (cases "ParseMetadata D (Payload msg)")
        case None
        then show ?thesis using Cons.prems(2) Frame MsgTypeMetadata
          by (auto simp: recv_message_def exit_ok_def recv_init_def)
      next
        case (Some md)
        let ?p = "filepath_Join destDir (Filename md)"
        show ?thesis
        proof (cases "ok \<and> ?p \<noteq> []")
          case False
          then show ?thesis using Cons.prems(2) Frame MsgTypeMetadata Some
            by (auto simp: recv_message_def exit_ok_def recv_init_def Let_def)
        next
          case True
          show ?thesis
          proof (cases "Size md < 0 \<or> \<not> makeslice_ok D (Size md)")
            case panic: True
            then have "r = Inl MakeSlicePanic"
              using True Cons.prems(2) Frame MsgTypeMetadata Some
              by (auto simp: recv_message_def Let_def)
            then show ?thesis by (simp add: exit_ok_def)
          next
            case False
            define st1 where "st1 = (recv_init d)\<lparr>metadata := md, destPath := ?p,
                file' := Some ?p, disk := os_Create d ?p, fileContent := []\<rparr>"
            have r1: "receiving destDir d st1"
              using True by (simp add: st1_def receiving_def os_Create_def)
            have "recv_step D destDir elapsed (recv_init d) ev = (st1, None)"
              using True False Frame MsgTypeMetadata Some
              by (simp add: recv_message_def Let_def st1_def recv_init_def)
            then have l1: "recv_loop D destDir elapsed st1 evs = (st', Some r)"
              using Cons.prems(2) by simp
            from receiving_loop [OF r1 rest l1] show ?thesis
              using Frame MsgTypeMetadata by (simp add: st1_def)
          qed
        qed
      qed
    qed (use Cons.prems(2) Frame in
        \<open>auto simp: recv_message_def exit_ok_def recv_init_def os_Remove_def zero_Metadata_def\<close>)
  qed (use Cons.prems(2) in \<open>auto simp: remove_if_open_def exit_ok_def recv_init_def\<close>)
qed

text \<open>
  C1 (amended). For every stream of frames with at most one Metadata message and every point of
  cancellation or failure, when \<^verbatim>\<open>ReceiveFile\<close> returns: with an error, the disk is as it was
  before the call, or as it was but without the destination file; with success, either no
  Metadata was received, the path is empty and the disk is untouched, or the disk is as it was
  except that the destination file holds exactly the bytes of the chunks received, in order,
  and their checksum equals the declared one whenever the metadata declared one. Nothing is
  said of an exit by the panic of \<^verbatim>\<open>make\<close>, which is no return.
\<close>

theorem C1_receive_exit_paths:
  assumes "length (filter is_metadata evs) \<le> 1"
    and "ReceiveFile D destDir elapsed d evs = (st, Some r)"
  shows "(\<forall>e. r = Inl e \<and> e \<noteq> MakeSlicePanic \<longrightarrow>
            disk st = d \<or> disk st = d(destPath st := None))
       \<and> (\<forall>p stats. r = Inr (p, stats) \<longrightarrow>
            (p = [] \<and> disk st = d)
            \<or> (p \<noteq> [] \<and> p = filepath_Join destDir (Filename (metadata st))
                \<and> disk st = d(p \<mapsto> received_bytes evs)
                \<and> (Checksum (metadata st) \<noteq> [] \<longrightarrow>
                     ComputeChecksum D (received_bytes evs) = Checksum (metadata st))))"
  using init_loop [OF assms(1), of D destDir elapsed d st r] assms(2)
  by (auto simp: ReceiveFile_def exit_ok_def)

lemmas sample_simps =
  sample_deps_def sample_ParseMetadata_def ReceiveFile_def recv_init_def recv_message_def
  NewChunkMessage_def NewCompleteMessage_def filepath_Join_def filepath_Clean_def
  os_Create_def os_Remove_def file_Write_def zero_Metadata_def Let_def

text \<open>
  C1 (as stated, refuted). Three runs. In the first the metadata declares five bytes and no
  checksum, two bytes arrive, and Complete is answered by a success return: the file that stays
  on disk is neither complete nor verified (the guard on a non-empty \<^verbatim>\<open>metadata.Checksum\<close>
  skips the comparison, and the declared size is never compared). In the second a Metadata that
  fails to parse arrives after a file has been created and written: that return path does not
  remove the file, and the partial file stays on disk with the error return. In the third the
  metadata declares a negative size: the file is created, \<^verbatim>\<open>make\<close> panics, and the empty file
  stays on disk.
\<close>

theorem C1_counterexample:
  "snd (ReceiveFile sample_deps ''d'' 1000 Map.empty unverified_run)
     = Some (Inr (''d/f.txt'', final_Stats 1000 2))
   \<and> disk (fst (ReceiveFile sample_deps ''d'' 1000 Map.empty unverified_run)) ''d/f.txt''
     = Some ''he''
   \<and> Size (metadata (fst (ReceiveFile sample_deps ''d'' 1000 Map.empty unverified_run))) = 5
   \<and> ComputeChecksum sample_deps ''he''
     \<noteq> Checksum (metadata (fst (ReceiveFile sample_deps ''d'' 1000 Map.empty unverified_run)))
   \<and> snd (ReceiveFile sample_deps ''d'' 1000 Map.empty second_metadata_run)
     = Some (Inl ParseMetadataFailed)
   \<and> disk (fst (ReceiveFile sample_deps ''d'' 1000 Map.empty second_metadata_run)) ''d/g.txt''
     = Some ''he''
   \<and> snd (ReceiveFile sample_deps ''d'' 1000 Map.empty negative_size_run)
     = Some (Inl MakeSlicePanic)
   \<and> disk (fst (ReceiveFile sample_deps ''d'' 1000 Map.empty negative_size_run)) ''d/h.txt''
     = Some []"
  by (simp add: unverified_run_def second_metadata_run_def negative_size_run_def sample_simps)

theorem C1_receive_exit_paths_witness:
  "length (filter is_metadata verified_run) \<le> 1
   \<and> snd (ReceiveFile sample_deps ''d'' 1000 Map.empty verified_run)
       = Some (Inr (''d/g.txt'', final_Stats 1000 5))
   \<and> disk (fst (ReceiveFile sample_deps ''d'' 1000 Map.empty verified_run))
       = [''d/g.txt'' \<mapsto> ''hello'']
   \<and> ComputeChecksum sample_deps (received_bytes verified_run) = ''#hello''
   \<and> length (filter is_metadata cancelled_run) \<le> 1
   \<and> snd (ReceiveFile sample_deps ''d'' 1000 [''d/g.txt'' \<mapsto> ''old''] cancelled_run)
       = Some (Inl CancelledByReceiver)
   \<and> disk (fst (ReceiveFile sample_deps ''d'' 1000 [''d/g.txt'' \<mapsto> ''old''] cancelled_run))
       = Map.empty"
proof -
  have m': "length (filter is_metadata cancelled_run) \<le> 1"
    by (simp add: cancelled_run_def is_metadata_def NewChunkMessage_def)
  have r': "ReceiveFile sample_deps ''d'' 1000 [''d/g.txt'' \<mapsto> ''old''] cancelled_run
      = (fst (ReceiveFile sample_deps ''d'' 1000 [''d/g.txt'' \<mapsto> ''old''] cancelled_run),
         Some (Inl CancelledByReceiver))"
    by (simp add: cancelled_run_def sample_simps remove_if_open_def)
  have p': "destPath (fst (ReceiveFile sample_deps ''d'' 1000 [''d/g.txt'' \<mapsto> ''old'']
      cancelled_run)) = ''d/g.txt''"
    by (simp add: cancelled_run_def sample_simps remove_if_open_def)
  have s': "snd (ReceiveFile sample_deps ''d'' 1000 [''d/g.txt'' \<mapsto> ''old''] cancelled_run)
      = Some (Inl CancelledByReceiver)"
    by (subst r') simp
  from C1_receive_exit_paths [OF m' r']
  have "disk (fst (ReceiveFile sample_deps ''d'' 1000 [''d/g.txt'' \<mapsto> ''old''] cancelled_run))
          = [''d/g.txt'' \<mapsto> ''old'']
      \<or> disk (fst (ReceiveFile sample_deps ''d'' 1000 [''d/g.txt'' \<mapsto> ''old''] cancelled_run))
          = Map.empty"
    by (simp add: p')
  moreover have "disk (fst (ReceiveFile sample_deps ''d'' 1000 [''d/g.txt'' \<mapsto> ''old'']
      cancelled_run)) ''d/g.txt'' = None"
    by (simp add: cancelled_run_def sample_simps remove_if_open_def)
  ultimately have c: "disk (fst (ReceiveFile sample_deps ''d'' 1000 [''d/g.txt'' \<mapsto> ''old'']
      cancelled_run)) = Map.empty"
    by (auto dest: fun_cong [where x = "''d/g.txt''"])
  have m: "length (filter is_metadata verified_run) \<le> 1"
    by (simp add: verified_run_def is_metadata_def NewChunkMessage_def NewCompleteMessage_def)
  have r: "ReceiveFile sample_deps ''d'' 1000 Map.empty verified_run
      = (fst (ReceiveFile sample_deps ''d'' 1000 Map.empty verified_run),
         Some (Inr (''d/g.txt'', final_Stats 1000 5)))"
    by (simp add: verified_run_def sample_simps)
  have b: "received_bytes verified_run = ''hello''"
    by (simp add: verified_run_def NewChunkMessage_def NewCompleteMessage_def)
  have md: "Checksum (metadata (fst (ReceiveFile sample_deps ''d'' 1000 Map.empty verified_run)))
      = ''#hello''"
    by (simp add: verified_run_def sample_simps)
  have s: "snd (ReceiveFile sample_deps ''d'' 1000 Map.empty verified_run)
      = Some (Inr (''d/g.txt'', final_Stats 1000 5))"
    by (subst r) simp
  from C1_receive_exit_paths [OF m r]
  have "disk (fst (ReceiveFile sample_deps ''d'' 1000 Map.empty verified_run))
          = [''d/g.txt'' \<mapsto> received_bytes verified_run]
      \<and> (Checksum (metadata (fst (ReceiveFile sample_deps ''d'' 1000 Map.empty verified_run))) \<noteq> []
           \<longrightarrow> ComputeChecksum sample_deps (received_bytes verified_run)
             = Checksum (metadata (fst (ReceiveFile sample_deps ''d'' 1000 Map.empty verified_run))))"
    by simp
  then show ?thesis
    using m s m' s' c by (simp add: b md)
qed

subsection \<open>Complete, and the destination path\<close>

lemma after_chunks_fields:
  "metadata (after_chunks st cs) = metadata st"
  "destPath (after_chunks st cs) = destPath st"
  "file' (after_chunks st cs) = file' st"
  "fileContent (after_chunks st cs) = fileContent st @ concat cs"
  "bytesReceived (after_chunks st cs) = bytesReceived st + int (length (concat cs))"
  by (induction cs arbitrary: st) simp_all

lemma after_chunks_disk:
  "disk st = d(destPath st \<mapsto> fileContent st) \<Longrightarrow>
   disk (after_chunks st cs) = d(destPath st \<mapsto> fileContent st @ concat cs)"
  by (induction cs arbitrary: st) (simp_all add: file_Write_def)

lemma recv_loop_chunks:
  "file' st = Some (destPath st) \<Longrightarrow>
   recv_loop D destDir elapsed st (chunk_frames cs @ evs)
     = recv_loop D destDir elapsed (after_chunks st cs) evs"
  by (induction cs arbitrary: st) (simp_all add: chunk_frames_def recv_message_def NewChunkMessage_def)

lemma complete_step:
  "recv_message D destDir elapsed st \<lparr>Type = MsgTypeComplete, Payload = pl\<rparr> ok =
     (if Checksum (metadata st) \<noteq> [] \<and> ComputeChecksum D (fileContent st) \<noteq> Checksum (metadata st)
      then (st\<lparr>disk := os_Remove (disk st) (destPath st)\<rparr>,
            Some (Inl (ChecksumMismatch (Checksum (metadata st)) (ComputeChecksum D (fileContent st)))))
      else (st, Some (Inr (destPath st, final_Stats elapsed (bytesReceived st)))))"
  by (simp add: recv_message_def)

lemma recv_init_fields [simp]:
  "disk (recv_init d) = d"
  "file' (recv_init d) = None"
  "destPath (recv_init d) = []"
  "fileContent (recv_init d) = []"
  "bytesReceived (recv_init d) = 0"
  "metadata (recv_init d) = zero_Metadata"
  by (simp_all add: recv_init_def)

lemma transfer_run:
  assumes p: "ParseMetadata D pl = Some md" and ne: "filepath_Join destDir (Filename md) \<noteq> []"
    and sz: "0 \<le> Size md" "makeslice_ok D (Size md)"
  shows "ReceiveFile D destDir elapsed d
           (Frame \<lparr>Type = MsgTypeMetadata, Payload = pl\<rparr> True # chunk_frames cs
              @ [Frame \<lparr>Type = MsgTypeComplete, Payload = cp\<rparr> ok])
         = recv_message D destDir elapsed
             (after_chunks ((recv_init d)\<lparr>metadata := md,
                  destPath := filepath_Join destDir (Filename md),
                  file' := Some (filepath_Join destDir (Filename md)),
                  disk := os_Create d (filepath_Join destDir (Filename md)),
                  fileContent := []\<rparr>) cs)
             \<lparr>Type = MsgTypeComplete, Payload = cp\<rparr> ok"
  using p ne sz
  by (simp add: ReceiveFile_def recv_message_def [of D destDir elapsed "recv_init d"] Let_def
        recv_loop_chunks after_chunks_fields complete_step)

lemma transfer_outcome:
  assumes p: "ParseMetadata D pl = Some md" and ne: "filepath_Join destDir (Filename md) \<noteq> []"
    and sz: "0 \<le> Size md" "makeslice_ok D (Size md)"
  shows "snd (ReceiveFile D destDir elapsed d
           (Frame \<lparr>Type = MsgTypeMetadata, Payload = pl\<rparr> True # chunk_frames cs
              @ [Frame \<lparr>Type = MsgTypeComplete, Payload = cp\<rparr> ok]))
         = (if Checksum md \<noteq> [] \<and> ComputeChecksum D (concat cs) \<noteq> Checksum md
            then Some (Inl (ChecksumMismatch (Checksum md) (ComputeChecksum D (concat cs))))
            else Some (Inr (filepath_Join destDir (Filename md),
                            final_Stats elapsed (int (length (concat cs))))))"
    and "disk (fst (ReceiveFile D destDir elapsed d
           (Frame \<lparr>Type = MsgTypeMetadata, Payload = pl\<rparr> True # chunk_frames cs
              @ [Frame \<lparr>Type = MsgTypeComplete, Payload = cp\<rparr> ok])))
         = (if Checksum md \<noteq> [] \<and> ComputeChecksum D (concat cs) \<noteq> Checksum md
            then d(filepath_Join destDir (Filename md) := None)
            else d(filepath_Join destDir (Filename md) \<mapsto> concat cs))"
proof -
  let ?p = "filepath_Join destDir (Filename md)"
  let ?st0 = "(recv_init d)\<lparr>metadata := md, destPath := ?p, file' := Some ?p,
                  disk := os_Create d ?p, fileContent := []\<rparr>"
  have d0: "disk ?st0 = d(destPath ?st0 \<mapsto> fileContent ?st0)"
    by (simp add: os_Create_def)
  have dk: "disk (after_chunks ?st0 cs) = d(?p \<mapsto> concat cs)"
    using after_chunks_disk [OF d0, of cs] by simp
  have b0: "bytesReceived (after_chunks ?st0 cs) = int (length (concat cs))"
    by (simp add: after_chunks_fields recv_init_def)
  show "snd (ReceiveFile D destDir elapsed d
           (Frame \<lparr>Type = MsgTypeMetadata, Payload = pl\<rparr> True # chunk_frames cs
              @ [Frame \<lparr>Type = MsgTypeComplete, Payload = cp\<rparr> ok]))
         = (if Checksum md \<noteq> [] \<and> ComputeChecksum D (concat cs) \<noteq> Checksum md
            then Some (Inl (ChecksumMismatch (Checksum md) (ComputeChecksum D (concat cs))))
            else Some (Inr (filepath_Join destDir (Filename md),
                            final_Stats elapsed (int (length (concat cs))))))"
    unfolding transfer_run [OF p ne sz] complete_step
    by (simp add: after_chunks_fields dk b0 os_Remove_def del: after_chunks.simps)
  show "disk (fst (ReceiveFile D destDir elapsed d
           (Frame \<lparr>Type = MsgTypeMetadata, Payload = pl\<rparr> True # chunk_frames cs
              @ [Frame \<lparr>Type = MsgTypeComplete, Payload = cp\<rparr> ok])))
         = (if Checksum md \<noteq> [] \<and> ComputeChecksum D (concat cs) \<noteq> Checksum md
            then d(filepath_Join destDir (Filename md) := None)
            else d(filepath_Join destDir (Filename md) \<mapsto> concat cs))"
    unfolding transfer_run [OF p ne sz] complete_step
    using ne by (simp add: after_chunks_fields dk b0 os_Remove_def del: after_chunks.simps)
qed

lemma final_Stats_fields:
  "Duration (final_Stats e b) = e"
  "BytesSent (final_Stats e b) = b"
  "Speed (final_Stats e b) = float64_div (float64_of_int b) (Duration_Seconds e)"
  by (simp_all add: final_Stats_def)

text \<open>
  C6. When Complete is handled with a non-empty declared checksum, the checksum of the bytes
  accumulated in memory is compared with it: on a mismatch the destination file is removed and
  the checksum-mismatch error (declared, computed) is returned; on a match, and always when no
  checksum was declared, the saved path is returned with the statistics. For a stream made of
  one Metadata (whose declared size can be allocated), chunks and Complete, the accumulated
  bytes are the concatenation of the chunk payloads, and the file holds them on success and is
  absent on a mismatch. The statistics carry the elapsed time, the byte count, and as speed the
  \<^verbatim>\<open>float64\<close> quotient of the byte count by the seconds elapsed.
\<close>

theorem C6_complete_checksum:
  "(\<forall>st pl ok. Checksum (metadata st) \<noteq> [] \<longrightarrow>
      recv_message D destDir elapsed st \<lparr>Type = MsgTypeComplete, Payload = pl\<rparr> ok =
        (if ComputeChecksum D (fileContent st) \<noteq> Checksum (metadata st)
         then (st\<lparr>disk := os_Remove (disk st) (destPath st)\<rparr>,
               Some (Inl (ChecksumMismatch (Checksum (metadata st))
                            (ComputeChecksum D (fileContent st)))))
         else (st, Some (Inr (destPath st, final_Stats elapsed (bytesReceived st))))))
   \<and> (\<forall>st pl ok. Checksum (metadata st) = [] \<longrightarrow>
        recv_message D destDir elapsed st \<lparr>Type = MsgTypeComplete, Payload = pl\<rparr> ok =
          (st, Some (Inr (destPath st, final_Stats elapsed (bytesReceived st)))))
   \<and> (\<forall>pl md cs cp ok d.
        ParseMetadata D pl = Some md \<and> filepath_Join destDir (Filename md) \<noteq> []
        \<and> 0 \<le> Size md \<and> makeslice_ok D (Size md) \<longrightarrow>
        (let p = filepath_Join destDir (Filename md);
             res = ReceiveFile D destDir elapsed d
                     (Frame \<lparr>Type = MsgTypeMetadata, Payload = pl\<rparr> True # chunk_frames cs
                        @ [Frame \<lparr>Type = MsgTypeComplete, Payload = cp\<rparr> ok])
         in if Checksum md \<noteq> [] \<and> ComputeChecksum D (concat cs) \<noteq> Checksum md
            then snd res = Some (Inl (ChecksumMismatch (Checksum md) (ComputeChecksum D (concat cs))))
               \<and> disk (fst res) = d(p := None)
            else snd res = Some (Inr (p, final_Stats elapsed (int (length (concat cs)))))
               \<and> disk (fst res) = d(p \<mapsto> concat cs)))
   \<and> (\<forall>b. Duration (final_Stats elapsed b) = elapsed \<and> BytesSent (final_Stats elapsed b) = b
          \<and> Speed (final_Stats elapsed b)
              = float64_div (float64_of_int b) (Duration_Seconds elapsed))"
proof (intro conjI allI impI)
  fix st :: recv_state and pl ok
  assume "Checksum (metadata st) \<noteq> []"
  then show "recv_message D destDir elapsed st \<lparr>Type = MsgTypeComplete, Payload = pl\<rparr> ok =
        (if ComputeChecksum D (fileContent st) \<noteq> Checksum (metadata st)
         then (st\<lparr>disk := os_Remove (disk st) (destPath st)\<rparr>,
               Some (Inl (ChecksumMismatch (Checksum (metadata st))
                            (ComputeChecksum D (fileContent st)))))
         else (st, Some (Inr (destPath st, final_Stats elapsed (bytesReceived st)))))"
    by (simp add: complete_step)
next
  fix st :: recv_state and pl ok
  assume "Checksum (metadata st) = []"
  then show "recv_message D destDir elapsed st \<lparr>Type = MsgTypeComplete, Payload = pl\<rparr> ok =
          (st, Some (Inr (destPath st, final_Stats elapsed (bytesReceived st))))"
    by (simp add: complete_step)
next
  fix pl md cs cp ok and d :: disk
  assume h: "ParseMetadata D pl = Some md \<and> filepath_Join destDir (Filename md) \<noteq> []
        \<and> 0 \<le> Size md \<and> makeslice_ok D (Size md)"
  then have p: "ParseMetadata D pl = Some md" and ne: "filepath_Join destDir (Filename md) \<noteq> []"
    and sz: "0 \<le> Size md" "makeslice_ok D (Size md)"
    by simp_all
  show "let p = filepath_Join destDir (Filename md);
             res = ReceiveFile D destDir elapsed d
                     (Frame \<lparr>Type = MsgTypeMetadata, Payload = pl\<rparr> True # chunk_frames cs
                        @ [Frame \<lparr>Type = MsgTypeComplete, Payload = cp\<rparr> ok])
         in if Checksum md \<noteq> [] \<and> ComputeChecksum D (concat cs) \<noteq> Checksum md
            then snd res = Some (Inl (ChecksumMismatch (Checksum md) (ComputeChecksum D (concat cs))))
               \<and> disk (fst res) = d(p := None)
            else snd res = Some (Inr (p, final_Stats elapsed (int (length (concat cs)))))
               \<and> disk (fst res) = d(p \<mapsto> concat cs)"
    unfolding Let_def transfer_outcome [OF p ne sz] by simp
next
  fix b
  show "Duration (final_Stats elapsed b) = elapsed" by (simp add: final_Stats_fields)
  show "BytesSent (final_Stats elapsed b) = b" by (simp add: final_Stats_fields)
  show "Speed (final_Stats elapsed b) = float64_div (float64_of_int b) (Duration_Seconds elapsed)"
    by (simp add: final_Stats_fields)
qed

theorem C6_complete_checksum_witness:
  "ParseMetadata sample_deps ''m2'' \<noteq> None
   \<and> snd (ReceiveFile sample_deps ''d'' 2000000000 Map.empty
        (Frame \<lparr>Type = MsgTypeMetadata, Payload = ''m2''\<rparr> True # chunk_frames [''hel'', ''lo'']
           @ [Frame \<lparr>Type = MsgTypeComplete, Payload = []\<rparr> True]))
       = Some (Inr (''d/g.txt'', final_Stats 2000000000 5))
   \<and> disk (fst (ReceiveFile sample_deps ''d'' 2000000000 Map.empty
        (Frame \<lparr>Type = MsgTypeMetadata, Payload = ''m2''\<rparr> True # chunk_frames [''hel'', ''lo'']
           @ [Frame \<lparr>Type = MsgTypeComplete, Payload = []\<rparr> True]))) ''d/g.txt'' = Some ''hello''
   \<and> snd (ReceiveFile sample_deps ''d'' 2000000000 Map.empty
        (Frame \<lparr>Type = MsgTypeMetadata, Payload = ''m2''\<rparr> True # chunk_frames [''hel'', ''lp'']
           @ [Frame \<lparr>Type = MsgTypeComplete, Payload = []\<rparr> True]))
       = Some (Inl (ChecksumMismatch ''#hello'' ''#hellp''))
   \<and> disk (fst (ReceiveFile sample_deps ''d'' 2000000000 Map.empty
        (Frame \<lparr>Type = MsgTypeMetadata, Payload = ''m2''\<rparr> True # chunk_frames [''hel'', ''lp'']
           @ [Frame \<lparr>Type = MsgTypeComplete, Payload = []\<rparr> True]))) ''d/g.txt'' = None
   \<and> Speed (final_Stats 2000000000 5)
       = float64_div (float64_of_int 5) (Duration_Seconds 2000000000)"
proof -
  let ?md = "\<lparr>Filename = ''g.txt'', Size = 5, Chunks = 1, Checksum = ''#hello'',
              MimeType = ''text/plain'', BatchIndex = 0, BatchTotal = 1\<rparr>"
  have pre: "ParseMetadata sample_deps ''m2'' = Some ?md \<and> filepath_Join ''d'' (Filename ?md) \<noteq> []
      \<and> 0 \<le> Size ?md \<and> makeslice_ok sample_deps (Size ?md)"
    by (simp add: sample_deps_def sample_ParseMetadata_def filepath_Join_def filepath_Clean_def)
  have j: "filepath_Join ''d'' ''g.txt'' = ''d/g.txt''"
    by (simp add: filepath_Join_def filepath_Clean_def)
  have c: "ComputeChecksum sample_deps = (\<lambda>b. CHR ''#'' # b)"
    by (simp add: sample_deps_def)
  note run = C6_complete_checksum [of sample_deps "''d''" 2000000000, THEN conjunct2,
      THEN conjunct2, THEN conjunct1, rule_format, OF pre, unfolded Let_def]
  note sp = C6_complete_checksum [of sample_deps "''d''" 2000000000, THEN conjunct2,
      THEN conjunct2, THEN conjunct2, rule_format, of 5]
  show ?thesis
    using run [where cs = "[''hel'', ''lo'']" and cp = "[]" and ok = True and d = Map.empty]
          run [where cs = "[''hel'', ''lp'']" and cp = "[]" and ok = True and d = Map.empty]
          sp pre
    by (simp add: j c)
qed

text \<open>
  C9. When the first message is Complete, \<^verbatim>\<open>ReceiveFile\<close> returns success with the empty path
  and zero bytes, whatever the checksum function is (it is not consulted), and leaves the disk
  untouched; when the first message is a Chunk, it fails with the chunk-before-metadata error.
\<close>

theorem C9_complete_before_metadata:
  "ReceiveFile D destDir elapsed d (Frame \<lparr>Type = MsgTypeComplete, Payload = pl\<rparr> ok # evs)
     = (recv_init d, Some (Inr ([], final_Stats elapsed 0)))
   \<and> BytesSent (final_Stats elapsed 0) = 0
   \<and> disk (recv_init d) = d
   \<and> ReceiveFile D destDir elapsed d (Frame \<lparr>Type = MsgTypeChunk, Payload = pl\<rparr> ok # evs)
     = (recv_init d, Some (Inl ChunkBeforeMetadata))"
  by (simp add: ReceiveFile_def recv_message_def final_Stats_def zero_Metadata_def)

lemma metadata_step:
  assumes "ParseMetadata D pl = Some md"
  shows "destPath (fst (recv_message D destDir elapsed st \<lparr>Type = MsgTypeMetadata, Payload = pl\<rparr> ok))
           = filepath_Join destDir (Filename md)"
    and "ok \<and> filepath_Join destDir (Filename md) \<noteq> [] \<Longrightarrow>
         snd (recv_message D destDir elapsed st \<lparr>Type = MsgTypeMetadata, Payload = pl\<rparr> ok)
             = (if Size md < 0 \<or> \<not> makeslice_ok D (Size md) then Some (Inl MakeSlicePanic)
                else None)
         \<and> file' (fst (recv_message D destDir elapsed st \<lparr>Type = MsgTypeMetadata, Payload = pl\<rparr> ok))
             = Some (filepath_Join destDir (Filename md))
         \<and> disk (fst (recv_message D destDir elapsed st \<lparr>Type = MsgTypeMetadata, Payload = pl\<rparr> ok))
             = (disk st)(filepath_Join destDir (Filename md) \<mapsto> [])"
    and "\<not> (ok \<and> filepath_Join destDir (Filename md) \<noteq> []) \<Longrightarrow>
         snd (recv_message D destDir elapsed st \<lparr>Type = MsgTypeMetadata, Payload = pl\<rparr> ok)
             = Some (Inl CreateFileFailed)
         \<and> disk (fst (recv_message D destDir elapsed st \<lparr>Type = MsgTypeMetadata, Payload = pl\<rparr> ok))
             = disk st"
  using assms by (auto simp: recv_message_def Let_def os_Create_def)

lemma join_examples:
  "filepath_Join ''downloads'' ''../evil.txt'' = ''evil.txt''"
  "filepath_Join ''/home/u/dl'' ''../.ssh/authorized_keys'' = ''/home/u/.ssh/authorized_keys''"
  "filepath_Join ''downloads'' ''a/b.txt'' = ''downloads/a/b.txt''"
  by (simp_all add: filepath_Join_def filepath_Clean_def)

text \<open>
  C10. For every Metadata that parses, the destination path is \<^verbatim>\<open>filepath.Join\<close> of the
  destination directory and the file name as received, and the file is created there (after
  which the loop goes on, unless the declared size makes \<^verbatim>\<open>make\<close> panic). A transfer that
  completes returns that path and leaves the received bytes in the file at that path. A name
  with \<^verbatim>\<open>..\<close> and a separator leads out of the directory: the path is not below it, and the
  transfer writes the file there.
\<close>

theorem C10_destination_path_unsanitized:
  "(\<forall>st pl md ok. ParseMetadata D pl = Some md \<longrightarrow>
      destPath (fst (recv_message D destDir elapsed st \<lparr>Type = MsgTypeMetadata, Payload = pl\<rparr> ok))
        = filepath_Join destDir (Filename md)
      \<and> (ok \<and> filepath_Join destDir (Filename md) \<noteq> [] \<longrightarrow>
           snd (recv_message D destDir elapsed st \<lparr>Type = MsgTypeMetadata, Payload = pl\<rparr> ok)
             = (if Size md < 0 \<or> \<not> makeslice_ok D (Size md) then Some (Inl MakeSlicePanic)
                else None)
         \<and> file' (fst (recv_message D destDir elapsed st \<lparr>Type = MsgTypeMetadata, Payload = pl\<rparr> ok))
             = Some (filepath_Join destDir (Filename md))
         \<and> disk (fst (recv_message D destDir elapsed st \<lparr>Type = MsgTypeMetadata, Payload = pl\<rparr> ok))
             = (disk st)(filepath_Join destDir (Filename md) \<mapsto> [])))
   \<and> (\<forall>pl md cs cp ok d.
        ParseMetadata D pl = Some md \<and> filepath_Join destDir (Filename md) \<noteq> []
        \<and> 0 \<le> Size md \<and> makeslice_ok D (Size md)
        \<and> (Checksum md = [] \<or> ComputeChecksum D (concat cs) = Checksum md) \<longrightarrow>
        snd (ReceiveFile D destDir elapsed d
               (Frame \<lparr>Type = MsgTypeMetadata, Payload = pl\<rparr> True # chunk_frames cs
                  @ [Frame \<lparr>Type = MsgTypeComplete, Payload = cp\<rparr> ok]))
          = Some (Inr (filepath_Join destDir (Filename md),
                       final_Stats elapsed (int (length (concat cs)))))
        \<and> disk (fst (ReceiveFile D destDir elapsed d
               (Frame \<lparr>Type = MsgTypeMetadata, Payload = pl\<rparr> True # chunk_frames cs
                  @ [Frame \<lparr>Type = MsgTypeComplete, Payload = cp\<rparr> ok])))
          = d(filepath_Join destDir (Filename md) \<mapsto> concat cs))
   \<and> CHR ''/'' \<in> set ''../evil.txt''
   \<and> filepath_Join ''downloads'' ''../evil.txt'' = ''evil.txt''
   \<and> \<not> prefix ''downloads/'' (filepath_Join ''downloads'' ''../evil.txt'')
   \<and> filepath_Join ''/home/u/dl'' ''../.ssh/authorized_keys'' = ''/home/u/.ssh/authorized_keys''
   \<and> \<not> prefix ''/home/u/dl/'' (filepath_Join ''/home/u/dl'' ''../.ssh/authorized_keys'')
   \<and> snd (ReceiveFile sample_deps ''downloads'' 1000 Map.empty escaping_run)
       = Some (Inr (''evil.txt'', final_Stats 1000 2))
   \<and> disk (fst (ReceiveFile sample_deps ''downloads'' 1000 Map.empty escaping_run))
       = [''evil.txt'' \<mapsto> ''hi'']"
proof (intro conjI allI impI)
  fix st :: recv_state and pl md ok
  assume p: "ParseMetadata D pl = Some md"
  show "destPath (fst (recv_message D destDir elapsed st \<lparr>Type = MsgTypeMetadata, Payload = pl\<rparr> ok))
        = filepath_Join destDir (Filename md)"
    by (rule metadata_step(1) [OF p])
  assume c: "ok \<and> filepath_Join destDir (Filename md) \<noteq> []"
  show "snd (recv_message D destDir elapsed st \<lparr>Type = MsgTypeMetadata, Payload = pl\<rparr> ok)
             = (if Size md < 0 \<or> \<not> makeslice_ok D (Size md) then Some (Inl MakeSlicePanic)
                else None)"
    using metadata_step(2) [OF p c] by simp
  show "file' (fst (recv_message D destDir elapsed st \<lparr>Type = MsgTypeMetadata, Payload = pl\<rparr> ok))
             = Some (filepath_Join destDir (Filename md))"
    using metadata_step(2) [OF p c] by simp
  show "disk (fst (recv_message D destDir elapsed st \<lparr>Type = MsgTypeMetadata, Payload = pl\<rparr> ok))
             = (disk st)(filepath_Join destDir (Filename md) \<mapsto> [])"
    using metadata_step(2) [OF p c] by simp
next
  fix pl md cs cp ok and d :: disk
  assume h: "ParseMetadata D pl = Some md \<and> filepath_Join destDir (Filename md) \<noteq> []
        \<and> 0 \<le> Size md \<and> makeslice_ok D (Size md)
        \<and> (Checksum md = [] \<or> ComputeChecksum D (concat cs) = Checksum md)"
  then have p: "ParseMetadata D pl = Some md" and ne: "filepath_Join destDir (Filename md) \<noteq> []"
    and sz: "0 \<le> Size md" "makeslice_ok D (Size md)"
    and ck: "(Checksum md \<noteq> [] \<and> ComputeChecksum D (concat cs) \<noteq> Checksum md) = False"
    by auto
  show "snd (ReceiveFile D destDir elapsed d
               (Frame \<lparr>Type = MsgTypeMetadata, Payload = pl\<rparr> True # chunk_frames cs
                  @ [Frame \<lparr>Type = MsgTypeComplete, Payload = cp\<rparr> ok]))
          = Some (Inr (filepath_Join destDir (Filename md),
                       final_Stats elapsed (int (length (concat cs)))))"
    by (simp only: transfer_outcome(1) [OF p ne sz] ck if_False)
  show "disk (fst (ReceiveFile D destDir elapsed d
               (Frame \<lparr>Type = MsgTypeMetadata, Payload = pl\<rparr> True # chunk_frames cs
                  @ [Frame \<lparr>Type = MsgTypeComplete, Payload = cp\<rparr> ok])))
          = d(filepath_Join destDir (Filename md) \<mapsto> concat cs)"
    by (simp only: transfer_outcome(2) [OF p ne sz] ck if_False)
next
  show "snd (ReceiveFile sample_deps ''downloads'' 1000 Map.empty escaping_run)
       = Some (Inr (''evil.txt'', final_Stats 1000 2))"
    by (simp add: escaping_run_def sample_simps)
  show "disk (fst (ReceiveFile sample_deps ''downloads'' 1000 Map.empty escaping_run))
       = [''evil.txt'' \<mapsto> ''hi'']"
    by (simp add: escaping_run_def sample_simps)
qed (simp_all add: join_examples)

theorem C10_destination_path_unsanitized_witness:
  "ParseMetadata sample_deps ''m3'' \<noteq> None
   \<and> destPath (fst (recv_message sample_deps ''downloads'' 0 (recv_init Map.empty)
        \<lparr>Type = MsgTypeMetadata, Payload = ''m3''\<rparr> True)) = ''evil.txt''
   \<and> snd (recv_message sample_deps ''downloads'' 0 (recv_init Map.empty)
        \<lparr>Type = MsgTypeMetadata, Payload = ''m3''\<rparr> True) = None
   \<and> file' (fst (recv_message sample_deps ''downloads'' 0 (recv_init Map.empty)
        \<lparr>Type = MsgTypeMetadata, Payload = ''m3''\<rparr> True)) = Some ''evil.txt''
   \<and> disk (fst (recv_message sample_deps ''downloads'' 0 (recv_init Map.empty)
        \<lparr>Type = MsgTypeMetadata, Payload = ''m3''\<rparr> True)) = [''evil.txt'' \<mapsto> []]
   \<and> snd (ReceiveFile sample_deps ''downloads'' 0 Map.empty
        (Frame \<lparr>Type = MsgTypeMetadata, Payload = ''m3''\<rparr> True # chunk_frames [''h'', ''i'']
           @ [Frame \<lparr>Type = MsgTypeComplete, Payload = []\<rparr> True]))
       = Some (Inr (''evil.txt'', final_Stats 0 2))
   \<and> disk (fst (ReceiveFile sample_deps ''downloads'' 0 Map.empty
        (Frame \<lparr>Type = MsgTypeMetadata, Payload = ''m3''\<rparr> True # chunk_frames [''h'', ''i'']
           @ [Frame \<lparr>Type = MsgTypeComplete, Payload = []\<rparr> True])))
       = [''evil.txt'' \<mapsto> ''hi'']"
proof -
  let ?md = "\<lparr>Filename = ''../evil.txt'', Size = 2, Chunks = 1, Checksum = [],
              MimeType = ''text/plain'', BatchIndex = 0, BatchTotal = 1\<rparr>"
  have pre: "ParseMetadata sample_deps ''m3'' = Some ?md"
    by (simp add: sample_deps_def sample_ParseMetadata_def)
  have j: "filepath_Join ''downloads'' ''../evil.txt'' = ''evil.txt''"
    by (simp add: filepath_Join_def filepath_Clean_def)
  have mk: "makeslice_ok sample_deps 2" by (simp add: sample_deps_def)
  have pre2: "ParseMetadata sample_deps ''m3'' = Some ?md
      \<and> filepath_Join ''downloads'' (Filename ?md) \<noteq> []
      \<and> 0 \<le> Size ?md \<and> makeslice_ok sample_deps (Size ?md)
      \<and> (Checksum ?md = [] \<or> ComputeChecksum sample_deps (concat [''h'', ''i'']) = Checksum ?md)"
    using pre mk by (simp add: j)
  note th = C10_destination_path_unsanitized [of sample_deps "''downloads''" 0, THEN conjunct1,
      rule_format, OF pre, of "recv_init Map.empty" True]
  note th2 = C10_destination_path_unsanitized [of sample_deps "''downloads''" 0, THEN conjunct2,
      THEN conjunct1, rule_format, OF pre2, where cp = "[]" and ok = True and d = Map.empty]
  show ?thesis
    using th th2 pre mk by (simp add: j)
qed

subsection \<open>SendFile\<close>

lemma chunks_of_Nil [simp]: "chunks_of n [] = []"
  by (simp add: chunks_of.simps)

lemma chunks_of_step: "0 < n \<Longrightarrow> xs \<noteq> [] \<Longrightarrow> chunks_of n xs = take n xs # chunks_of n (drop n xs)"
  by (subst chunks_of.simps) simp

lemma concat_chunks_of: "0 < n \<Longrightarrow> concat (chunks_of n xs) = xs"
  by (induction n xs rule: chunks_of.induct) (subst chunks_of.simps, simp)

lemma chunks_of_bound: "c \<in> set (chunks_of n xs) \<Longrightarrow> c \<noteq> [] \<and> length c \<le> n"
proof (induction n xs rule: chunks_of.induct)
  case (1 n xs)
  show ?case
  proof (cases "n = 0 \<or> xs = []")
    case True
    then show ?thesis using "1.prems" by (simp add: chunks_of.simps)
  next
    case False
    then have "c = take n xs \<or> c \<in> set (chunks_of n (drop n xs))"
      using "1.prems" by (simp add: chunks_of_step)
    then show ?thesis using False "1.IH" by auto
  qed
qed

lemma map_length_chunks_of:
  "0 < n \<Longrightarrow> map length (chunks_of n xs) =
     replicate (length xs div n) n @ (if length xs mod n = 0 then [] else [length xs mod n])"
proof (induction n xs rule: chunks_of.induct)
  case (1 n xs)
  show ?case
  proof (cases "xs = []")
    case True
    then show ?thesis by simp
  next
    case False
    note IH = "1.IH" [OF _ "1.prems"]
    show ?thesis
    proof (cases "length xs < n")
      case True
      then show ?thesis using False "1.prems" by (simp add: chunks_of_step)
    next
      case ge: False
      then have d: "length xs div n = Suc ((length xs - n) div n)"
        and m: "length xs mod n = (length xs - n) mod n"
        using "1.prems" by (simp_all add: le_div_geq le_mod_geq)
      show ?thesis
        using IH False "1.prems" ge by (simp add: chunks_of_step d m min_def)
    qed
  qed
qed

lemma length_chunks_of: "0 < n \<Longrightarrow> length (chunks_of n xs) = (length xs + n - 1) div n"
proof (induction n xs rule: chunks_of.induct)
  case (1 n xs)
  show ?case
  proof (cases "xs = []")
    case True
    then show ?thesis using "1.prems" by simp
  next
    case False
    then have len: "0 < length xs" by simp
    have IH: "length (chunks_of n (drop n xs)) = (length (drop n xs) + n - 1) div n"
      using "1.IH" False "1.prems" by simp
    have "length (chunks_of n xs) = Suc ((length xs - n + n - 1) div n)"
      using False "1.prems" IH by (simp add: chunks_of_step)
    also have "\<dots> = (length xs + n - 1) div n"
    proof -
      have e: "length xs + n - 1 = (length xs - 1) + n" using len by linarith
      have r: "(length xs + n - 1) div n = Suc ((length xs - 1) div n)"
        unfolding e using "1.prems" by simp
      show ?thesis
      proof (cases "length xs \<le> n")
        case True
        then have "length xs - n + n - 1 < n" "length xs - 1 < n"
          using "1.prems" len by linarith+
        then show ?thesis unfolding r by simp
      next
        case False
        then have "length xs - n + n - 1 = length xs - 1" by linarith
        then show ?thesis unfolding r by simp
      qed
    qed
    finally show ?thesis .
  qed
qed


declare send_loop.simps [simp del]

lemma send_loop_success:
  "send_loop E cs k rest out b = (Inr stats, tr) \<Longrightarrow> 0 < cs \<Longrightarrow>
   tr = out @ map NewChunkMessage (chunks_of cs rest) @ [NewCompleteMessage]
   \<and> stats = final_Stats (send_elapsed E) (b + int (length rest))"
proof (induction E cs k rest out b rule: send_loop.induct)
  case (1 E cs k rest out b)
  show ?case
  proof (cases "rest = []")
    case True
    then show ?thesis using "1.prems"
      by (subst (asm) send_loop.simps) (auto simp: send_complete_def split: if_splits)
  next
    case False
    have c: "\<not> ctx_done E k" "\<not> fails E (ReadChunk k)" "\<not> fails E (EncryptChunk k)"
        "\<not> fails E (WriteChunk k)"
      using "1.prems" False by (subst (asm) send_loop.simps, auto split: if_splits)+
    then have r: "send_loop E cs (Suc k) (drop cs rest) (out @ [NewChunkMessage (take cs rest)])
             (b + int (length (take cs rest))) = (Inr stats, tr)"
      using "1.prems" False by (subst (asm) send_loop.simps) simp
    have "cs \<noteq> 0" using "1.prems" by simp
    from "1.IH" [OF c(1,2) False this c(3,4) r "1.prems"(2)]
    show ?thesis using False "1.prems"(2) by (simp add: chunks_of_step min_def)
  qed
qed

lemma send_loop_no_failure:
  "\<forall>c. \<not> fails E c \<Longrightarrow> \<forall>k. \<not> ctx_done E k \<Longrightarrow> 0 < cs \<Longrightarrow>
   \<exists>stats. fst (send_loop E cs k rest out b) = Inr stats"
proof (induction E cs k rest out b rule: send_loop.induct)
  case (1 E cs k rest out b)
  show ?case
  proof (cases "rest = []")
    case True
    then show ?thesis using "1.prems"
      by (subst send_loop.simps) (simp add: send_complete_def)
  next
    case False
    have "\<exists>stats. fst (send_loop E cs (Suc k) (drop cs rest) (out @ [NewChunkMessage (take cs rest)])
             (b + int (length (take cs rest)))) = Inr stats"
      using "1.IH" False "1.prems" by simp
    then show ?thesis using False "1.prems"
      by (subst send_loop.simps) simp
  qed
qed

lemma send_loop_cancelled:
  "ctx_done E k \<Longrightarrow>
   send_loop E cs k rest out b =
     (Inl ContextErr,
      if fails E (EncryptCancel k) then out else out @ [NewCancelMessage ''cancelled by sender''])"
  by (subst send_loop.simps) simp

lemma send_loop_cancel_at:
  assumes "0 < cs"
  shows "n \<le> length (chunks_of cs rest) \<Longrightarrow> ctx_done E (k + n) \<Longrightarrow>
     \<forall>j<n. \<not> ctx_done E (k + j) \<and> \<not> fails E (ReadChunk (k + j))
        \<and> \<not> fails E (EncryptChunk (k + j)) \<and> \<not> fails E (WriteChunk (k + j)) \<Longrightarrow>
     send_loop E cs k rest out b =
       (Inl ContextErr,
        out @ map NewChunkMessage (take n (chunks_of cs rest))
          @ (if fails E (EncryptCancel (k + n)) then []
             else [NewCancelMessage ''cancelled by sender'']))"
proof (induction n arbitrary: k rest out b)
  case 0
  then show ?case by (simp add: send_loop_cancelled)
next
  case (Suc n)
  have ne: "rest \<noteq> []" using Suc.prems(1) by auto
  then have ch: "chunks_of cs rest = take cs rest # chunks_of cs (drop cs rest)"
    using assms by (simp add: chunks_of_step)
  have here: "\<not> ctx_done E k" "\<not> fails E (ReadChunk k)" "\<not> fails E (EncryptChunk k)"
      "\<not> fails E (WriteChunk k)"
    using Suc.prems(3) [rule_format, of 0] by simp_all
  have later: "\<forall>j<n. \<not> ctx_done E (Suc k + j) \<and> \<not> fails E (ReadChunk (Suc k + j))
        \<and> \<not> fails E (EncryptChunk (Suc k + j)) \<and> \<not> fails E (WriteChunk (Suc k + j))"
    using Suc.prems(3) by (metis Suc_less_eq add_Suc_right add_Suc)
  have n: "n \<le> length (chunks_of cs (drop cs rest))" using Suc.prems(1) ch by simp
  have d: "ctx_done E (Suc k + n)" using Suc.prems(2) by simp
  have "send_loop E cs k rest out b =
      send_loop E cs (Suc k) (drop cs rest) (out @ [NewChunkMessage (take cs rest)])
             (b + int (length (take cs rest)))"
    using here ne assms by (subst send_loop.simps) simp
  also note Suc.IH [OF n d later]
  finally show ?case using ch by simp
qed

lemma sdiv_nonneg: "0 \<le> a \<Longrightarrow> 0 < b \<Longrightarrow> a sdiv b = a div (b::int)"
  by (cases "a = 0") (simp_all add: signed_divide_int_def)

lemma round_up_div:
  assumes "0 < (b::int)"
  shows "(a + b - 1) div b = (if a mod b = 0 then a div b else a div b + 1)"
proof -
  have e: "a + b - 1 = (a mod b + b - 1) + b * (a div b)"
    using mult_div_mod_eq [of b a] by linarith
  have r: "0 \<le> a mod b" "a mod b < b" using assms by simp_all
  have d: "(a + b - 1) div b = a div b + (a mod b + b - 1) div b"
    unfolding e using assms by simp
  show ?thesis
  proof (cases "a mod b = 0")
    case True
    then have "(a mod b + b - 1) div b = 0" using assms by (simp add: div_pos_pos_trivial)
    then show ?thesis using d True by simp
  next
    case False
    then have x: "0 \<le> a mod b - 1" "a mod b - 1 < b" using r by linarith+
    have "a mod b + b - 1 = (a mod b - 1) + b" by simp
    then have "(a mod b + b - 1) div b = (a mod b - 1) div b + 1"
      using assms by (metis div_add_self2 less_irrefl)
    also have "\<dots> = 1" using x by (simp add: div_pos_pos_trivial)
    finally show ?thesis using d False by simp
  qed
qed

lemma ceiling_as_div:
  assumes "0 < (b::int)"
  shows "\<lceil>real_of_int a / real_of_int b\<rceil> = (a + b - 1) div b"
  using assms by (simp add: ceiling_divide_eq_div zdiv_zminus1_eq_if round_up_div)

lemma wrap64_id: "- (2 ^ 63) \<le> x \<Longrightarrow> x < 2 ^ 63 \<Longrightarrow> wrap64 x = x"
  by (simp add: wrap64_def mod_pos_pos_trivial)

lemma wrap64_sum_pred:
  assumes "1 \<le> x" and "x \<le> 2 ^ 63"
  shows "wrap64 (wrap64 x - 1) = x - 1"
proof (cases "x = 2 ^ 63")
  case True
  then show ?thesis by (simp add: wrap64_def)
next
  case False
  then have "x < 2 ^ 63" using assms by simp
  then show ?thesis using assms by (simp add: wrap64_id)
qed

lemma build_metadata_fields:
  "Size (build_metadata D s fp data) = int (length data)"
  "Checksum (build_metadata D s fp data) = ComputeChecksum D data"
  "Filename (build_metadata D s fp data) = filepath_Base fp"
  "BatchIndex (build_metadata D s fp data) = 0"
  "BatchTotal (build_metadata D s fp data) = 1"
  by (simp_all add: build_metadata_def Let_def)

lemma build_metadata_Chunks:
  assumes "0 < ChunkSize (config s)" and "int (length data) + ChunkSize (config s) \<le> 2 ^ 63"
  shows "Chunks (build_metadata D s fp data)
           = (int (length data) + ChunkSize (config s) - 1) div ChunkSize (config s)"
proof -
  have "wrap64 (wrap64 (int (length data) + ChunkSize (config s)) - 1)
          = int (length data) + ChunkSize (config s) - 1"
    using assms by (intro wrap64_sum_pred) simp_all
  moreover have "0 \<le> int (length data) + ChunkSize (config s) - 1" using assms by simp
  ultimately show ?thesis
    using assms(1) by (simp add: build_metadata_def Let_def sdiv_nonneg)
qed

lemma build_metadata_Chunks_length:
  assumes "0 < ChunkSize (config s)" and "int (length data) + ChunkSize (config s) \<le> 2 ^ 63"
  shows "Chunks (build_metadata D s fp data)
           = int (length (chunks_of (nat (ChunkSize (config s))) data))"
proof -
  let ?n = "nat (ChunkSize (config s))"
  have n: "0 < ?n" "int ?n = ChunkSize (config s)" using assms(1) by simp_all
  have "int ((length data + ?n - 1) div ?n) = (int (length data) + int ?n - 1) div int ?n"
    using n(1) by (simp add: zdiv_int of_nat_diff)
  then show ?thesis
    using build_metadata_Chunks [OF assms, of D fp] n by (simp add: length_chunks_of)
qed

lemma NewMetadataMessage_Type: "NewMetadataMessage D md = Some mm \<Longrightarrow> Type mm = MsgTypeMetadata"
  by (auto simp: NewMetadataMessage_def split: option.splits)

lemma SendFile_success:
  assumes "fst (SendFile D E s fp) = Inr stats" and "0 < ChunkSize (config s)"
  shows "\<exists>mm. NewMetadataMessage D (build_metadata D s fp (content E)) = Some mm
           \<and> snd (SendFile D E s fp)
               = mm # map NewChunkMessage (chunks_of (nat (ChunkSize (config s))) (content E))
                   @ [NewCompleteMessage]
           \<and> stats = final_Stats (send_elapsed E) (int (length (content E)))"
proof -
  obtain mm where mm: "NewMetadataMessage D (build_metadata D s fp (content E)) = Some mm"
    using assms by (cases "NewMetadataMessage D (build_metadata D s fp (content E))")
      (auto simp: SendFile_def split: if_splits)
  have l: "SendFile D E s fp = send_loop E (nat (ChunkSize (config s))) 0 (content E) [mm] 0"
    using assms mm by (auto simp: SendFile_def split: if_splits)
  obtain tr where t: "send_loop E (nat (ChunkSize (config s))) 0 (content E) [mm] 0 = (Inr stats, tr)"
    using assms(1) l by (cases "send_loop E (nat (ChunkSize (config s))) 0 (content E) [mm] 0") simp
  from send_loop_success [OF t] assms(2) show ?thesis
    using mm l t by simp
qed

lemma SendFile_no_failure:
  assumes "\<forall>c. \<not> fails E c" and "\<forall>k. \<not> ctx_done E k" and "0 < ChunkSize (config s)"
    and "MarshalMetadata D (build_metadata D s fp (content E)) \<noteq> None"
  shows "\<exists>stats. fst (SendFile D E s fp) = Inr stats"
proof -
  obtain mm where mm: "NewMetadataMessage D (build_metadata D s fp (content E)) = Some mm"
    using assms(4) by (auto simp: NewMetadataMessage_def)
  have "SendFile D E s fp = send_loop E (nat (ChunkSize (config s))) 0 (content E) [mm] 0"
    using assms mm by (simp add: SendFile_def)
  then show ?thesis
    using send_loop_no_failure [OF assms(1,2), of "nat (ChunkSize (config s))"] assms(3) by simp
qed

lemma SendFile_enters_loop:
  assumes "\<not> fails E OpenFile" "\<not> fails E StatFile" "\<not> fails E ReadAllFile" "\<not> fails E SeekFile"
    "\<not> fails E EncryptMetadata" "\<not> fails E WriteMetadata" "\<not> fails E MakeBuffer"
    and "0 < ChunkSize (config s)"
    and "NewMetadataMessage D (build_metadata D s fp (content E)) = Some mm"
  shows "SendFile D E s fp = send_loop E (nat (ChunkSize (config s))) 0 (content E) [mm] 0"
  using assms by (simp add: SendFile_def)

text \<open>
  C4 (as stated, refuted). The claim speaks of every configured chunk size. \<^verbatim>\<open>NewSender\<close>
  replaces only the size 0 by the default and keeps a negative size. With the size \<open>-1\<close>, a
  file of eleven bytes, no failing call and no cancellation, \<^verbatim>\<open>SendFile\<close> sends the Metadata
  message, whose chunk count is \<open>-9\<close>, and then panics in \<^verbatim>\<open>make([]byte, s.config.ChunkSize)\<close>:
  no Chunk and no Complete message follows.
\<close>

theorem C4_negative_chunk_size_counterexample:
  "ChunkSize (config negative_chunk_sender) = - 1
   \<and> fails quiet_small_env = (\<lambda>c. False) \<and> ctx_done quiet_small_env = (\<lambda>k. False)
   \<and> fst (SendFile sample_deps quiet_small_env negative_chunk_sender ''f.txt'')
       = Inl (Panic ''makeslice: len out of range'')
   \<and> snd (SendFile sample_deps quiet_small_env negative_chunk_sender ''f.txt'')
       = [\<lparr>Type = MsgTypeMetadata, Payload = ''f.txt''\<rparr>]
   \<and> Chunks (build_metadata sample_deps negative_chunk_sender ''f.txt''
               (content quiet_small_env)) = - 9"
proof -
  have cs: "ChunkSize (config negative_chunk_sender) = - 1"
    by (simp add: negative_chunk_sender_def NewSender_def Let_def)
  have ch: "Chunks (build_metadata sample_deps negative_chunk_sender ''f.txt''
               (content quiet_small_env)) = - 9"
    by (simp add: build_metadata_def Let_def cs quiet_small_env_def wrap64_def
          signed_divide_int_def)
  have fn: "Filename (build_metadata sample_deps negative_chunk_sender ''f.txt''
               (content quiet_small_env)) = ''f.txt''"
    by (simp add: build_metadata_fields filepath_Base_def)
  have mar: "MarshalMetadata sample_deps = (\<lambda>md. Some (Filename md))"
    by (simp add: sample_deps_def)
  have mm: "NewMetadataMessage sample_deps (build_metadata sample_deps negative_chunk_sender
               ''f.txt'' (content quiet_small_env))
             = Some \<lparr>Type = MsgTypeMetadata, Payload = ''f.txt''\<rparr>"
    by (simp add: NewMetadataMessage_def mar fn)
  have sf: "SendFile sample_deps quiet_small_env negative_chunk_sender ''f.txt''
             = (Inl (Panic ''makeslice: len out of range''),
                [\<lparr>Type = MsgTypeMetadata, Payload = ''f.txt''\<rparr>])"
    unfolding SendFile_def mm by (simp add: cs quiet_small_env_def)
  show ?thesis
    using cs ch sf by (simp add: quiet_small_env_def)
qed

text \<open>
  C4 (amended). For every file and every positive chunk size (sizes within \<^verbatim>\<open>int64\<close>), a call of
  \<^verbatim>\<open>SendFile\<close> that returns without error has handed to the connection exactly: one Metadata
  message, then one Chunk message per fixed-size slice of the content in file order, then one
  Complete message. The metadata carries the length of the file, the number of chunks
  \<open>\<lceil>size / chunk_size\<rceil>\<close>, which is the number of Chunk messages, and the checksum of the full
  content; the chunks are non-empty, at most \<open>chunk_size\<close> bytes long, and concatenate to the
  content. A file of 150000 bytes with chunk size 65536 gives chunk count 3 and chunks of 65536,
  65536 and 18928 bytes. When no call fails and the context is never done the call does return
  without error; and when the full read for the checksum fails, nothing has been transmitted.
\<close>

theorem C4_send_file_stream:
  assumes "0 < ChunkSize (config s)"
    and "int (length (content E)) + ChunkSize (config s) \<le> 2 ^ 63"
  shows "(fst (SendFile D E s fp) = Inr stats \<longrightarrow>
           (\<exists>mm. NewMetadataMessage D (build_metadata D s fp (content E)) = Some mm
              \<and> Type mm = MsgTypeMetadata
              \<and> snd (SendFile D E s fp)
                  = mm # map NewChunkMessage (chunks_of (nat (ChunkSize (config s))) (content E))
                      @ [NewCompleteMessage])
           \<and> stats = final_Stats (send_elapsed E) (int (length (content E))))
       \<and> Size (build_metadata D s fp (content E)) = int (length (content E))
       \<and> Chunks (build_metadata D s fp (content E))
           = \<lceil>real (length (content E)) / real_of_int (ChunkSize (config s))\<rceil>
       \<and> Chunks (build_metadata D s fp (content E))
           = int (length (chunks_of (nat (ChunkSize (config s))) (content E)))
       \<and> Checksum (build_metadata D s fp (content E)) = ComputeChecksum D (content E)
       \<and> concat (chunks_of (nat (ChunkSize (config s))) (content E)) = content E
       \<and> (\<forall>c \<in> set (chunks_of (nat (ChunkSize (config s))) (content E)).
             c \<noteq> [] \<and> int (length c) \<le> ChunkSize (config s))
       \<and> (length (content E) = 150000 \<and> ChunkSize (config s) = 65536 \<longrightarrow>
             Chunks (build_metadata D s fp (content E)) = 3
           \<and> map length (chunks_of (nat (ChunkSize (config s))) (content E))
               = [65536, 65536, 18928])
       \<and> ((\<forall>c. \<not> fails E c) \<and> (\<forall>k. \<not> ctx_done E k)
            \<and> MarshalMetadata D (build_metadata D s fp (content E)) \<noteq> None \<longrightarrow>
             (\<exists>st. fst (SendFile D E s fp) = Inr st))
       \<and> (fails E ReadAllFile \<longrightarrow> snd (SendFile D E s fp) = [])"
proof -
  let ?cs = "ChunkSize (config s)"
  let ?chunks = "chunks_of (nat ?cs) (content E)"
  let ?md = "build_metadata D s fp (content E)"
  have n: "0 < nat ?cs" using assms(1) by simp
  have a: "fst (SendFile D E s fp) = Inr stats \<longrightarrow>
           (\<exists>mm. NewMetadataMessage D ?md = Some mm \<and> Type mm = MsgTypeMetadata
              \<and> snd (SendFile D E s fp) = mm # map NewChunkMessage ?chunks @ [NewCompleteMessage])
           \<and> stats = final_Stats (send_elapsed E) (int (length (content E)))"
    using SendFile_success [OF _ assms(1), of D E fp stats] NewMetadataMessage_Type by blast
  have b: "Chunks ?md = \<lceil>real (length (content E)) / real_of_int ?cs\<rceil>"
    using build_metadata_Chunks [OF assms, of D fp] ceiling_as_div [OF assms(1), of "int (length (content E))"]
    by simp
  have c: "Chunks ?md = int (length ?chunks)"
    by (rule build_metadata_Chunks_length [OF assms])
  have d: "\<forall>c \<in> set ?chunks. c \<noteq> [] \<and> int (length c) \<le> ?cs"
  proof
    fix c
    assume "c \<in> set ?chunks"
    then have "c \<noteq> []" and "length c \<le> nat ?cs"
      using chunks_of_bound [of c "nat ?cs" "content E"] by simp_all
    then show "c \<noteq> [] \<and> int (length c) \<le> ?cs" using assms(1) by linarith
  qed
  have e: "length (content E) = 150000 \<and> ?cs = 65536 \<longrightarrow>
             Chunks ?md = 3 \<and> map length ?chunks = [65536, 65536, 18928]"
  proof
    assume h: "length (content E) = 150000 \<and> ?cs = 65536"
    then have "map length ?chunks = replicate 2 65536 @ [18928]"
      using map_length_chunks_of [OF n, of "content E"] by simp
    then have m: "map length ?chunks = [65536, 65536, 18928]"
      by (simp add: numeral_2_eq_2)
    then have "length ?chunks = 3"
      by (metis length_map length_Cons list.size(3) numeral_3_eq_3)
    then show "Chunks ?md = 3 \<and> map length ?chunks = [65536, 65536, 18928]"
      using c m by simp
  qed
  have f: "(\<forall>c. \<not> fails E c) \<and> (\<forall>k. \<not> ctx_done E k) \<and> MarshalMetadata D ?md \<noteq> None \<longrightarrow>
             (\<exists>st. fst (SendFile D E s fp) = Inr st)"
    using SendFile_no_failure [OF _ _ assms(1), of E D fp] by blast
  have g: "fails E ReadAllFile \<longrightarrow> snd (SendFile D E s fp) = []"
    by (simp add: SendFile_def)
  show ?thesis
    using a b c d e f g
    by (simp only: build_metadata_fields concat_chunks_of [OF n] simp_thms)
qed

lemma default_sender_ChunkSize: "ChunkSize (config default_sender) = 65536"
  by (simp add: default_sender_def NewSender_def Let_def DefaultChunkSize_def)

lemma small_sender_ChunkSize: "ChunkSize (config small_sender) = 4"
  by (simp add: small_sender_def NewSender_def Let_def)

theorem C4_send_file_stream_witness:
  "0 < ChunkSize (config default_sender)
   \<and> length (content quiet_env) = 150000
   \<and> fst (SendFile sample_deps quiet_env default_sender ''/tmp/data.txt'')
       = Inr (final_Stats (3 * Second) 150000)
   \<and> Type (hd (snd (SendFile sample_deps quiet_env default_sender ''/tmp/data.txt'')))
       = MsgTypeMetadata
   \<and> tl (snd (SendFile sample_deps quiet_env default_sender ''/tmp/data.txt''))
       = map NewChunkMessage (chunks_of 65536 (content quiet_env)) @ [NewCompleteMessage]
   \<and> map length (chunks_of 65536 (content quiet_env)) = [65536, 65536, 18928]
   \<and> Size (build_metadata sample_deps default_sender ''/tmp/data.txt'' (content quiet_env)) = 150000
   \<and> Chunks (build_metadata sample_deps default_sender ''/tmp/data.txt'' (content quiet_env)) = 3"
proof -
  have cs: "0 < ChunkSize (config default_sender)" by (simp add: default_sender_ChunkSize)
  have len: "length (content quiet_env) = 150000" by (simp add: quiet_env_def)
  have bound: "int (length (content quiet_env)) + ChunkSize (config default_sender) \<le> 2 ^ 63"
    by (simp add: len default_sender_ChunkSize)
  have quiet: "(\<forall>c. \<not> fails quiet_env c) \<and> (\<forall>k. \<not> ctx_done quiet_env k)
      \<and> MarshalMetadata sample_deps
           (build_metadata sample_deps default_sender ''/tmp/data.txt'' (content quiet_env)) \<noteq> None"
    by (simp add: quiet_env_def sample_deps_def)
  note th = C4_send_file_stream [OF cs bound, of sample_deps "''/tmp/data.txt''"]
  from th [of zero_Stats] quiet
  obtain st where st: "fst (SendFile sample_deps quiet_env default_sender ''/tmp/data.txt'') = Inr st"
    by blast
  from th [of st] st obtain mm where
    mm: "Type mm = MsgTypeMetadata"
      "snd (SendFile sample_deps quiet_env default_sender ''/tmp/data.txt'')
         = mm # map NewChunkMessage (chunks_of (nat (ChunkSize (config default_sender)))
                  (content quiet_env)) @ [NewCompleteMessage]"
    and stats: "st = final_Stats (send_elapsed quiet_env) (int (length (content quiet_env)))"
    by blast
  have el: "send_elapsed quiet_env = 3 * Second" by (simp add: quiet_env_def)
  have inst: "Chunks (build_metadata sample_deps default_sender ''/tmp/data.txt'' (content quiet_env)) = 3
      \<and> map length (chunks_of (nat (ChunkSize (config default_sender))) (content quiet_env))
          = [65536, 65536, 18928]"
    using th [of st] len default_sender_ChunkSize by blast
  have sz: "Size (build_metadata sample_deps default_sender ''/tmp/data.txt'' (content quiet_env)) = 150000"
    using th [of st] len by simp
  show ?thesis
    using cs len st stats el mm inst sz by (simp add: default_sender_ChunkSize)
qed

text \<open>
  C8 (as stated, refuted). The context is done at the first checkpoint and the encryption of the
  Cancel message fails: \<^verbatim>\<open>SendFile\<close> returns the cancellation error, and the only message sent is
  the Metadata. The source sends the Cancel message only under \<^verbatim>\<open>err == nil\<close> of its encryption.
\<close>

theorem C8_cancel_counterexample:
  "ctx_done cancel_unencrypted_env 0
   \<and> fst (SendFile sample_deps cancel_unencrypted_env default_sender ''f.txt'') = Inl ContextErr
   \<and> snd (SendFile sample_deps cancel_unencrypted_env default_sender ''f.txt'')
       = [\<lparr>Type = MsgTypeMetadata, Payload = ''f.txt''\<rparr>]"
  by (simp add: SendFile_def default_sender_ChunkSize cancel_unencrypted_env_def
        NewMetadataMessage_def sample_deps_def build_metadata_fields send_loop_cancelled
        filepath_Base_def)

text \<open>
  C8 (amended). Every iteration of the loop polls the context before it reads: when the context
  is done at the poll of iteration \<open>k\<close>, whatever the read would return, the loop encrypts a Cancel
  message with the reason \<^verbatim>\<open>cancelled by sender\<close>, sends it if the encryption succeeded, and
  returns the context's error. So a call of \<^verbatim>\<open>SendFile\<close> cancelled at checkpoint \<open>n\<close> has sent the
  Metadata, the first \<open>n\<close> chunks, then the Cancel message (when it could be encrypted), and
  nothing after it.
\<close>

theorem C8_cancel_checkpoint:
  assumes "0 < ChunkSize (config s)"
  shows "(\<forall>cs k rest out b. ctx_done E k \<longrightarrow>
            send_loop E cs k rest out b =
              (Inl ContextErr,
               if fails E (EncryptCancel k) then out
               else out @ [NewCancelMessage ''cancelled by sender'']))
       \<and> (\<forall>n mm.
            \<not> fails E OpenFile \<and> \<not> fails E StatFile \<and> \<not> fails E ReadAllFile \<and> \<not> fails E SeekFile
            \<and> \<not> fails E EncryptMetadata \<and> \<not> fails E WriteMetadata \<and> \<not> fails E MakeBuffer
            \<and> NewMetadataMessage D (build_metadata D s fp (content E)) = Some mm
            \<and> n \<le> length (chunks_of (nat (ChunkSize (config s))) (content E))
            \<and> ctx_done E n
            \<and> (\<forall>j<n. \<not> ctx_done E j \<and> \<not> fails E (ReadChunk j)
                  \<and> \<not> fails E (EncryptChunk j) \<and> \<not> fails E (WriteChunk j)) \<longrightarrow>
            SendFile D E s fp =
              (Inl ContextErr,
               mm # map NewChunkMessage (take n (chunks_of (nat (ChunkSize (config s))) (content E)))
                 @ (if fails E (EncryptCancel n) then []
                    else [NewCancelMessage ''cancelled by sender''])))
       \<and> Type (NewCancelMessage ''cancelled by sender'') = MsgTypeCancel
       \<and> Payload (NewCancelMessage ''cancelled by sender'') = ''cancelled by sender''"
proof (intro conjI allI impI)
  fix cs k rest out b
  assume "ctx_done E k"
  then show "send_loop E cs k rest out b =
              (Inl ContextErr,
               if fails E (EncryptCancel k) then out
               else out @ [NewCancelMessage ''cancelled by sender''])"
    by (rule send_loop_cancelled)
next
  fix n mm
  assume h: "\<not> fails E OpenFile \<and> \<not> fails E StatFile \<and> \<not> fails E ReadAllFile \<and> \<not> fails E SeekFile
            \<and> \<not> fails E EncryptMetadata \<and> \<not> fails E WriteMetadata \<and> \<not> fails E MakeBuffer
            \<and> NewMetadataMessage D (build_metadata D s fp (content E)) = Some mm
            \<and> n \<le> length (chunks_of (nat (ChunkSize (config s))) (content E))
            \<and> ctx_done E n
            \<and> (\<forall>j<n. \<not> ctx_done E j \<and> \<not> fails E (ReadChunk j)
                  \<and> \<not> fails E (EncryptChunk j) \<and> \<not> fails E (WriteChunk j))"
  have l: "SendFile D E s fp = send_loop E (nat (ChunkSize (config s))) 0 (content E) [mm] 0"
    using h assms by (intro SendFile_enters_loop) simp_all
  have n: "0 < nat (ChunkSize (config s))" using assms by simp
  show "SendFile D E s fp =
              (Inl ContextErr,
               mm # map NewChunkMessage (take n (chunks_of (nat (ChunkSize (config s))) (content E)))
                 @ (if fails E (EncryptCancel n) then []
                    else [NewCancelMessage ''cancelled by sender'']))"
    unfolding l using send_loop_cancel_at [OF n, of n "content E" E 0 "[mm]" 0] h by simp
qed (simp_all add: NewCancelMessage_def)

theorem C8_cancel_checkpoint_witness:
  "0 < ChunkSize (config small_sender)
   \<and> ctx_done cancel_after_one_env 1
   \<and> chunks_of 4 (content cancel_after_one_env) = [''hell'', ''o wo'', ''rld'']
   \<and> SendFile sample_deps cancel_after_one_env small_sender ''f.txt''
       = (Inl ContextErr,
          [\<lparr>Type = MsgTypeMetadata, Payload = ''f.txt''\<rparr>, NewChunkMessage ''hell'',
           NewCancelMessage ''cancelled by sender''])"
proof -
  have cs: "0 < ChunkSize (config small_sender)" by (simp add: small_sender_ChunkSize)
  have ch: "chunks_of 4 (content cancel_after_one_env) = [''hell'', ''o wo'', ''rld'']"
    by (simp add: cancel_after_one_env_def chunks_of_step)
  have pre: "\<not> fails cancel_after_one_env OpenFile \<and> \<not> fails cancel_after_one_env StatFile
      \<and> \<not> fails cancel_after_one_env ReadAllFile \<and> \<not> fails cancel_after_one_env SeekFile
      \<and> \<not> fails cancel_after_one_env EncryptMetadata \<and> \<not> fails cancel_after_one_env WriteMetadata
      \<and> \<not> fails cancel_after_one_env MakeBuffer
      \<and> NewMetadataMessage sample_deps
           (build_metadata sample_deps small_sender ''f.txt'' (content cancel_after_one_env))
          = Some \<lparr>Type = MsgTypeMetadata, Payload = ''f.txt''\<rparr>
      \<and> 1 \<le> length (chunks_of (nat (ChunkSize (config small_sender))) (content cancel_after_one_env))
      \<and> ctx_done cancel_after_one_env 1
      \<and> (\<forall>j<1. \<not> ctx_done cancel_after_one_env j \<and> \<not> fails cancel_after_one_env (ReadChunk j)
            \<and> \<not> fails cancel_after_one_env (EncryptChunk j)
            \<and> \<not> fails cancel_after_one_env (WriteChunk j))"
    using ch by (simp add: small_sender_ChunkSize NewMetadataMessage_def sample_deps_def
        build_metadata_fields filepath_Base_def) (simp add: cancel_after_one_env_def)
  note th = C8_cancel_checkpoint [OF cs, of cancel_after_one_env sample_deps "''f.txt''",
      THEN conjunct2, THEN conjunct1, rule_format, OF pre]
  show ?thesis
    using th cs ch by (simp add: small_sender_ChunkSize) (simp add: cancel_after_one_env_def)
qed

end
